theory Spec2Isabelle
  imports Main "HOL-Library.Word" "HOL-Library.AList"
begin

section \<open>CEGAR pattern collection generation (search/pdbs/cegar.cc)\<close>

text \<open>
  A shallow embedding of class \<open>Cegar\<close>. The member functions become functions on a
  record of the object's mutable members; the constant members become a record of
  options. Logging is left out: it never changes control flow.
\<close>

subsection \<open>Data\<close>

text \<open>
  The C++ type \<open>int\<close> of sizes, limits and counters is a 32-bit two's complement
  word: \<open>sint\<close> reads the value, \<open>\<le>s\<close> is the signed comparison, and \<open>+\<close>, \<open>-\<close>
  and \<open>*\<close> wrap around. C++ leaves signed overflow undefined; the wrap-around is what
  the usual compilers make of it. Variable identifiers are \<open>int\<close> as well in the
  source, but no arithmetic is done on them; they are mathematical integers here.
  Indices into \<open>solutions\<close> are natural numbers.
\<close>

type_synonym cint = "32 word"
type_synonym state = "int \<Rightarrow> int"
type_synonym fact = "int \<times> int"
type_synonym pattern = "int list"

text \<open>A flaw is the pair \<open>(solution_index, variable)\<close>.\<close>

type_synonym flaw = "nat \<times> int"

text \<open>
  Modelled from the spec: the planning task behind \<open>TaskProxy\<close> (its headers are not
  part of the sources), as the read-only queries the spec lists for it: the number of
  variables and their domain sizes, the preconditions of an operator, successor
  application, the goal as a list of facts and the initial state.
\<close>

record task =
  num_variables :: nat
  get_domain_size :: "int \<Rightarrow> cint"
  get_preconditions :: "nat \<Rightarrow> fact list"
  get_unregistered_successor :: "state \<Rightarrow> nat \<Rightarrow> state"
  get_goals :: "fact list"
  get_initial_state :: state

text \<open>
  Modelled from the spec: \<open>AbstractSolutionData\<close> (abstract_solution_data.h is not
  part of the sources). An entry holds its pattern, the size of its PDB, its wildcard
  plan (a list of steps, each a list of abstract operator ids), the translation of
  abstract to concrete operator ids, the solved flag and whether an abstract solution
  exists.
\<close>

record abstract_solution_data =
  get_pattern :: pattern
  pdb_size :: cint
  get_plan :: "nat list list"
  get_concrete_op_id_for_abs_op_id :: "nat \<Rightarrow> nat"
  is_solved :: bool
  solution_exists :: bool

text \<open>
  The external collaborators: the abstract solver behind the constructor of
  \<open>AbstractSolutionData\<close>, the random number generator and the countdown timer. Each
  is a function on an opaque state \<open>'w\<close> of the outside world, which it may change.
\<close>

record 'w environment =
  solver :: "'w \<Rightarrow> pattern \<Rightarrow> abstract_solution_data \<times> 'w"
  random_below :: "'w \<Rightarrow> nat \<Rightarrow> nat \<times> 'w"
  shuffle :: "'w \<Rightarrow> int list \<Rightarrow> int list \<times> 'w"
  is_expired :: "'w \<Rightarrow> bool \<times> 'w"

datatype InitialCollectionType = GIVEN_GOAL | RANDOM_GOAL | ALL_GOALS

text \<open>
  The constant members of \<open>Cegar\<close>. The members \<open>wildcard_plans\<close>, \<open>verbosity\<close>
  and \<open>max_time\<close> are left out: they only go to the solver, the log and the timer.
\<close>

record options =
  max_refinements :: cint
  max_pdb_size :: cint
  max_collection_size :: cint
  ignore_goal_violations :: bool
  global_blacklist_size :: int
  initial :: InitialCollectionType
  given_goal :: int

text \<open>
  The mutable members of \<open>Cegar\<close>. A null pointer in \<open>solutions\<close> is \<open>None\<close>; the
  \<open>unordered_map\<close> \<open>solution_lookup\<close> is an association list, read with \<open>map_of\<close>
  and written with \<open>AList.update\<close>; \<open>world\<close> is the state of the collaborators.
\<close>

record 'w cegar =
  remaining_goals :: "int list"
  global_blacklist :: "int set"
  solutions :: "abstract_solution_data option list"
  solution_lookup :: "(int \<times> nat) list"
  collection_size :: cint
  concrete_solution_index :: int
  world :: 'w

text \<open>
  The ways a run ends other than by returning: the two exit codes, a failed \<open>assert\<close>
  (as in a build with assertions enabled) and an access the language leaves
  undefined: a null or missing entry of \<open>solutions\<close>, an index outside a vector.
\<close>

datatype failure =
  SEARCH_UNSOLVABLE | SEARCH_INPUT_ERROR | ASSERTION_FAILED | INVALID_ACCESS

subsection \<open>Collaborators\<close>

text \<open>
  Modelled from the spec: the constructor of \<open>AbstractSolutionData\<close>. The entry is
  made by the solver for the pattern it is given; it holds that pattern and starts
  unsolved.
\<close>

definition AbstractSolutionData ::
  "'w environment \<Rightarrow> 'w \<Rightarrow> pattern \<Rightarrow> abstract_solution_data \<times> 'w" where
  "AbstractSolutionData env w p =
     (let (e, w') = solver env w p
      in (e\<lparr>get_pattern := p, is_solved := False\<rparr>, w'))"

text \<open>
  Modelled from the spec: \<open>task_properties::is_goal_state\<close>, the goal test of the
  task: every goal fact holds in the state.
\<close>

definition is_goal_state :: "task \<Rightarrow> state \<Rightarrow> bool" where
  "is_goal_state t s = list_all (\<lambda>(var, val). s var = val) (get_goals t)"

text \<open>
  Modelled from the spec: \<open>utils::is_product_within_limit\<close> (utils/math.h is not
  part of the sources), the overflow-checked comparison of a product against a limit:
  the product is taken over the integers, where it cannot overflow.
\<close>

definition is_product_within_limit :: "cint \<Rightarrow> cint \<Rightarrow> cint \<Rightarrow> bool" where
  "is_product_within_limit factor1 factor2 limit =
     (sint factor1 * sint factor2 \<le> sint limit)"

text \<open>The entry at an index of \<open>solutions\<close>, if there is one.\<close>

definition entry_at :: "'w cegar \<Rightarrow> nat \<Rightarrow> abstract_solution_data option" where
  "entry_at c i = (if i < length (solutions c) then solutions c ! i else None)"

subsection \<open>Plan projection: \<open>apply_wildcard_plan\<close>\<close>

text \<open>
  The loop over the preconditions of one operator. The pair carried along is
  \<open>(flaw_detected, flaws)\<close>.
\<close>

fun check_preconditions ::
  "int set \<Rightarrow> state \<Rightarrow> nat \<Rightarrow> fact list \<Rightarrow> bool \<times> flaw list \<Rightarrow> bool \<times> flaw list" where
  "check_preconditions blacklist current solution_index [] (flaw_detected, flaws) =
     (flaw_detected, flaws)"
| "check_preconditions blacklist current solution_index ((var, val) # preconditions)
     (flaw_detected, flaws) =
     (if var \<in> blacklist
      then check_preconditions blacklist current solution_index preconditions
             (flaw_detected, flaws)
      else if current var \<noteq> val
      then check_preconditions blacklist current solution_index preconditions
             (True, flaws @ [(solution_index, var)])
      else check_preconditions blacklist current solution_index preconditions
             (flaw_detected, flaws))"

text \<open>
  The loop over the operators of one step. The result is
  \<open>(step_failed, flaws, current)\<close>.
\<close>

fun try_equivalent_ops ::
  "task \<Rightarrow> int set \<Rightarrow> abstract_solution_data \<Rightarrow> nat \<Rightarrow> nat list \<Rightarrow> flaw list \<times> state
     \<Rightarrow> bool \<times> flaw list \<times> state" where
  "try_equivalent_ops t blacklist solution solution_index [] (flaws, current) =
     (True, flaws, current)"
| "try_equivalent_ops t blacklist solution solution_index (abs_op_id # equivalent_ops)
     (flaws, current) =
     (let op_id = get_concrete_op_id_for_abs_op_id solution abs_op_id;
          (flaw_detected, flaws') =
             check_preconditions blacklist current solution_index
               (get_preconditions t op_id) (False, flaws)
      in if \<not> flaw_detected
         then (False, [], get_unregistered_successor t current op_id)
         else try_equivalent_ops t blacklist solution solution_index equivalent_ops
                (flaws', current))"

text \<open>The loop over the steps of the plan; it stops at the first step that failed.\<close>

fun execute_plan ::
  "task \<Rightarrow> int set \<Rightarrow> abstract_solution_data \<Rightarrow> nat \<Rightarrow> nat list list \<Rightarrow> flaw list \<times> state
     \<Rightarrow> flaw list \<times> state" where
  "execute_plan t blacklist solution solution_index [] (flaws, current) = (flaws, current)"
| "execute_plan t blacklist solution solution_index (equivalent_ops # plan) (flaws, current) =
     (let (step_failed, flaws', current') =
            try_equivalent_ops t blacklist solution solution_index equivalent_ops
              (flaws, current)
      in if step_failed then (flaws', current')
         else execute_plan t blacklist solution solution_index plan (flaws', current'))"

text \<open>The loop over the goal facts that collects the goal violation flaws.\<close>

fun collect_goal_flaws ::
  "int set \<Rightarrow> int list \<Rightarrow> state \<Rightarrow> nat \<Rightarrow> fact list \<Rightarrow> flaw list \<Rightarrow> flaw list" where
  "collect_goal_flaws blacklist remaining current solution_index [] flaws = flaws"
| "collect_goal_flaws blacklist remaining current solution_index ((goal_var_id, val) # goals)
     flaws =
     (if current goal_var_id \<noteq> val \<and> goal_var_id \<notin> blacklist
         \<and> goal_var_id \<in> set remaining
      then collect_goal_flaws blacklist remaining current solution_index goals
             (flaws @ [(solution_index, goal_var_id)])
      else collect_goal_flaws blacklist remaining current solution_index goals flaws)"

text \<open>\<open>solution.mark_as_solved()\<close>, for the entry \<open>solution\<close> at \<open>solution_index\<close>.\<close>

definition mark_as_solved ::
  "'w cegar \<Rightarrow> nat \<Rightarrow> abstract_solution_data \<Rightarrow> 'w cegar" where
  "mark_as_solved c solution_index solution =
     c\<lparr>solutions := (solutions c)[solution_index := Some (solution\<lparr>is_solved := True\<rparr>)]\<rparr>"

text \<open>
  \<open>solution\<close> is the entry \<open>*solutions[solution_index]\<close> the source takes a reference
  to. The result is the returned flaw list and the object after the call.
\<close>

definition apply_wildcard_plan ::
  "options \<Rightarrow> task \<Rightarrow> 'w cegar \<Rightarrow> nat \<Rightarrow> abstract_solution_data \<Rightarrow> state
     \<Rightarrow> flaw list \<times> 'w cegar" where
  "apply_wildcard_plan opts t c solution_index solution init =
     (let (flaws, current) =
            execute_plan t (global_blacklist c) solution solution_index (get_plan solution)
              ([], init)
      in if flaws = [] then
           if is_goal_state t current then
             if global_blacklist c = {}
             then (flaws, c\<lparr>concrete_solution_index := int solution_index\<rparr>)
             else (flaws, mark_as_solved c solution_index solution)
           else if \<not> ignore_goal_violations opts
           then (collect_goal_flaws (global_blacklist c) (remaining_goals c) current
                   solution_index (get_goals t) flaws, c)
           else (flaws, mark_as_solved c solution_index solution)
         else (flaws, c))"


lemma length_solutions_mark_as_solved [simp]:
  "length (solutions (mark_as_solved c i e)) = length (solutions c)"
  by (simp add: mark_as_solved_def)

lemma length_solutions_apply_wildcard_plan:
  "length (solutions (snd (apply_wildcard_plan opts t c i e init))) = length (solutions c)"
  by (simp add: apply_wildcard_plan_def Let_def split: prod.splits)

subsection \<open>Flaw extraction: \<open>get_flaws\<close>\<close>

text \<open>
  The loop over \<open>solution_index\<close>. The pair carried along is the flaw list collected
  so far and the object. The two assertions after a concrete solution was found are
  checked as in a build with assertions enabled.
\<close>

function get_flaws_loop ::
  "options \<Rightarrow> task \<Rightarrow> state \<Rightarrow> flaw list \<times> 'w cegar \<Rightarrow> nat
     \<Rightarrow> failure + flaw list \<times> 'w cegar" where
  "get_flaws_loop opts t concrete_init (flaws, c) solution_index =
     (if solution_index < length (solutions c) then
        (case solutions c ! solution_index of
           None \<Rightarrow> get_flaws_loop opts t concrete_init (flaws, c) (solution_index + 1)
         | Some solution \<Rightarrow>
             if is_solved solution
             then get_flaws_loop opts t concrete_init (flaws, c) (solution_index + 1)
             else if \<not> solution_exists solution then Inl SEARCH_UNSOLVABLE
             else (case apply_wildcard_plan opts t c solution_index solution concrete_init of
                     (new_flaws, c') \<Rightarrow>
                       if concrete_solution_index c' \<noteq> - 1
                       then if concrete_solution_index c' = int solution_index
                               \<and> new_flaws = []
                            then Inr ([], c')
                            else Inl ASSERTION_FAILED
                       else get_flaws_loop opts t concrete_init (flaws @ new_flaws, c')
                              (solution_index + 1)))
      else Inr (flaws, c))"
  by pat_completeness auto
termination
  apply (relation "measure (\<lambda>(opts, t, init, (flaws, c), i). length (solutions c) - i)")
     apply simp_all
  apply (metis length_solutions_apply_wildcard_plan snd_conv diff_less_mono2 lessI)
  done

text \<open>The equation of the loop is unfolded on demand only.\<close>

declare get_flaws_loop.simps [simp del]

definition get_flaws :: "options \<Rightarrow> task \<Rightarrow> 'w cegar \<Rightarrow> failure + flaw list \<times> 'w cegar" where
  "get_flaws opts t c = get_flaws_loop opts t (get_initial_state t) ([], c) 0"

subsection \<open>Refinement\<close>

text \<open>\<open>find\<close> and \<open>erase\<close>: the first occurrence of \<open>added_var\<close> is removed.\<close>

definition update_goals :: "'w cegar \<Rightarrow> int \<Rightarrow> 'w cegar" where
  "update_goals c added_var = c\<lparr>remaining_goals := remove1 added_var (remaining_goals c)\<rparr>"

text \<open>
  After \<open>emplace_back\<close> the new entry is at index \<open>solutions.size() - 1\<close>, the length
  of \<open>solutions\<close> before the call.
\<close>

definition add_pattern_for_var :: "'w environment \<Rightarrow> 'w cegar \<Rightarrow> int \<Rightarrow> 'w cegar" where
  "add_pattern_for_var env c var =
     (let (new_solution, w') = AbstractSolutionData env (world c) [var]
      in c\<lparr>solutions := solutions c @ [Some new_solution],
           solution_lookup := AList.update var (length (solutions c)) (solution_lookup c),
           collection_size := collection_size c + pdb_size new_solution,
           world := w'\<rparr>)"

text \<open>
  In the three functions below the parameters \<open>solution\<close>, \<open>solution1\<close> and
  \<open>solution2\<close> are the entries \<open>*solutions[index]\<close>, \<open>*solutions[index1]\<close> and
  \<open>*solutions[index2]\<close> that the source dereferences first; \<open>handle_flaw\<close> passes
  them after checking that they are there.
\<close>

definition can_merge_patterns ::
  "options \<Rightarrow> 'w cegar \<Rightarrow> abstract_solution_data \<Rightarrow> abstract_solution_data \<Rightarrow> bool" where
  "can_merge_patterns opts c solution1 solution2 =
     (let pdb_size1 = pdb_size solution1;
          pdb_size2 = pdb_size solution2
      in if \<not> is_product_within_limit pdb_size1 pdb_size2 (max_pdb_size opts) then False
         else (let added_size = pdb_size1 * pdb_size2 - pdb_size1 - pdb_size2
               in collection_size c + added_size \<le>s max_collection_size opts))"

definition merge_patterns ::
  "'w environment \<Rightarrow> 'w cegar \<Rightarrow> nat \<Rightarrow> nat \<Rightarrow> abstract_solution_data
     \<Rightarrow> abstract_solution_data \<Rightarrow> 'w cegar" where
  "merge_patterns env c index1 index2 solution1 solution2 =
     (let pattern2 = get_pattern solution2;
          lookup = fold (\<lambda>var l. AList.update var index1 l) pattern2 (solution_lookup c);
          new_pattern = sort (get_pattern solution1 @ pattern2);
          pdb_size1 = pdb_size solution1;
          pdb_size2 = pdb_size solution2;
          (merged, w') = AbstractSolutionData env (world c) new_pattern
      in c\<lparr>solution_lookup := lookup,
           collection_size := collection_size c - pdb_size1 - pdb_size2 + pdb_size merged,
           solutions := (solutions c)[index1 := Some merged, index2 := None],
           world := w'\<rparr>)"

definition can_add_variable_to_pattern ::
  "options \<Rightarrow> task \<Rightarrow> 'w cegar \<Rightarrow> abstract_solution_data \<Rightarrow> int \<Rightarrow> bool" where
  "can_add_variable_to_pattern opts t c solution var =
     (let pdb_size0 = pdb_size solution;
          domain_size = get_domain_size t var
      in if \<not> is_product_within_limit pdb_size0 domain_size (max_pdb_size opts) then False
         else (let added_size = pdb_size0 * domain_size - pdb_size0
               in collection_size c + added_size \<le>s max_collection_size opts))"

definition add_variable_to_pattern ::
  "'w environment \<Rightarrow> 'w cegar \<Rightarrow> nat \<Rightarrow> abstract_solution_data \<Rightarrow> int \<Rightarrow> 'w cegar" where
  "add_variable_to_pattern env c index solution var =
     (let new_pattern = sort (get_pattern solution @ [var]);
          (new_solution, w') = AbstractSolutionData env (world c) new_pattern;
          c1 = c\<lparr>collection_size :=
                    collection_size c - pdb_size solution + pdb_size new_solution,
                  solution_lookup := AList.update var index (solution_lookup c),
                  world := w'\<rparr>;
          c2 = update_goals c1 var
      in c2\<lparr>solutions := (solutions c2)[index := Some new_solution]\<rparr>)"

text \<open>
  \<open>added_var\<close> stays false exactly on the two branches that blacklist. The
  assertions on \<open>other_index\<close> are checked as in a build with assertions enabled.
\<close>

definition handle_flaw ::
  "'w environment \<Rightarrow> options \<Rightarrow> task \<Rightarrow> 'w cegar \<Rightarrow> flaw \<Rightarrow> failure + 'w cegar" where
  "handle_flaw env opts t c flaw =
     (let sol_index = fst flaw;
          var = snd flaw
      in case map_of (solution_lookup c) var of
           Some other_index \<Rightarrow>
             if other_index = sol_index then Inl ASSERTION_FAILED
             else (case entry_at c other_index of
                     None \<Rightarrow> Inl ASSERTION_FAILED
                   | Some solution2 \<Rightarrow>
                       (case entry_at c sol_index of
                          None \<Rightarrow> Inl INVALID_ACCESS
                        | Some solution1 \<Rightarrow>
                            if can_merge_patterns opts c solution1 solution2
                            then Inr (merge_patterns env c sol_index other_index
                                        solution1 solution2)
                            else Inr (c\<lparr>global_blacklist :=
                                           insert var (global_blacklist c)\<rparr>)))
         | None \<Rightarrow>
             (case entry_at c sol_index of
                None \<Rightarrow> Inl INVALID_ACCESS
              | Some solution \<Rightarrow>
                  if can_add_variable_to_pattern opts t c solution var
                  then Inr (add_variable_to_pattern env c sol_index solution var)
                  else Inr (c\<lparr>global_blacklist := insert var (global_blacklist c)\<rparr>)))"

text \<open>The random number generator is asked for an index below \<open>flaws.size()\<close>.\<close>

definition refine ::
  "'w environment \<Rightarrow> options \<Rightarrow> task \<Rightarrow> 'w cegar \<Rightarrow> flaw list \<Rightarrow> failure + 'w cegar" where
  "refine env opts t c flaws =
     (if flaws = [] then Inl ASSERTION_FAILED
      else (let (random_flaw_index, w') = random_below env (world c) (length flaws)
            in if random_flaw_index < length flaws
               then handle_flaw env opts t (c\<lparr>world := w'\<rparr>) (flaws ! random_flaw_index)
               else Inl INVALID_ACCESS))"

subsection \<open>The driver\<close>

paragraph \<open>Seeding: \<open>generate_trivial_solution_collection\<close>\<close>

lemma remaining_goals_add_pattern_for_var [simp]:
  "remaining_goals (add_pattern_for_var env c var) = remaining_goals c"
  by (simp add: add_pattern_for_var_def split: prod.splits)

text \<open>The loop of the case \<open>ALL_GOALS\<close>: \<open>back\<close>, \<open>pop_back\<close>, \<open>add_pattern_for_var\<close>.\<close>

function all_goals_loop :: "'w environment \<Rightarrow> 'w cegar \<Rightarrow> 'w cegar" where
  "all_goals_loop env c =
     (if remaining_goals c \<noteq> [] then
        (let var = last (remaining_goals c);
             c1 = c\<lparr>remaining_goals := butlast (remaining_goals c)\<rparr>
         in all_goals_loop env (add_pattern_for_var env c1 var))
      else c)"
  by pat_completeness auto
termination
  by (relation "measure (\<lambda>(env, c). length (remaining_goals c))") auto

declare all_goals_loop.simps [simp del]

text \<open>The two assertions are checked as in a build with assertions enabled.\<close>

definition generate_trivial_solution_collection ::
  "'w environment \<Rightarrow> options \<Rightarrow> 'w cegar \<Rightarrow> failure + 'w cegar" where
  "generate_trivial_solution_collection env opts c =
     (if remaining_goals c = [] then Inl ASSERTION_FAILED
      else (case initial opts of
              GIVEN_GOAL \<Rightarrow>
                if given_goal opts = - 1 then Inl ASSERTION_FAILED
                else Inr (add_pattern_for_var env (update_goals c (given_goal opts))
                            (given_goal opts))
            | RANDOM_GOAL \<Rightarrow>
                (let var = last (remaining_goals c);
                     c1 = c\<lparr>remaining_goals := butlast (remaining_goals c)\<rparr>
                 in Inr (add_pattern_for_var env c1 var))
            | ALL_GOALS \<Rightarrow> Inr (all_goals_loop env c)))"

paragraph \<open>The main loop\<close>

definition time_limit_reached :: "'w environment \<Rightarrow> 'w cegar \<Rightarrow> bool \<times> 'w cegar" where
  "time_limit_reached env c =
     (let (expired, w') = is_expired env (world c) in (expired, c\<lparr>world := w'\<rparr>))"

definition termination_conditions_met ::
  "'w environment \<Rightarrow> options \<Rightarrow> 'w cegar \<Rightarrow> cint \<Rightarrow> bool \<times> 'w cegar" where
  "termination_conditions_met env opts c refinement_counter =
     (let (reached, c') = time_limit_reached env c
      in if reached then (True, c')
         else if refinement_counter = max_refinements opts then (True, c')
         else (False, c'))"

text \<open>
  One pass through the body of the \<open>while\<close> loop of \<open>generate\<close>, its condition
  included. The result is the object after the pass and whether the loop goes on
  (with \<open>refinement_counter\<close> incremented) or is left.
\<close>

definition main_loop_body ::
  "'w environment \<Rightarrow> options \<Rightarrow> task \<Rightarrow> 'w cegar \<Rightarrow> cint \<Rightarrow> failure + 'w cegar \<times> bool" where
  "main_loop_body env opts t c refinement_counter =
     (let (met, c1) = termination_conditions_met env opts c refinement_counter
      in if met then Inr (c1, False)
         else (case get_flaws opts t c1 of
                 Inl f \<Rightarrow> Inl f
               | Inr (flaws, c2) \<Rightarrow>
                   if flaws = [] then
                     if concrete_solution_index c2 \<noteq> - 1 \<and> global_blacklist c2 \<noteq> {}
                     then Inl ASSERTION_FAILED
                     else Inr (c2, False)
                   else (let (reached, c3) = time_limit_reached env c2
                         in if reached then Inr (c3, False)
                            else (case refine env opts t c3 flaws of
                                    Inl f \<Rightarrow> Inl f
                                  | Inr c4 \<Rightarrow> Inr (c4, True)))))"

text \<open>
  The \<open>while\<close> loop. With a timer that never expires and a \<open>max_refinements\<close> that
  the counter does not meet it need not end, so the result is an option: \<open>None\<close> is
  a run that does not return.
\<close>

partial_function (option) main_loop ::
  "'w environment \<Rightarrow> options \<Rightarrow> task \<Rightarrow> 'w cegar \<Rightarrow> cint \<Rightarrow> (failure + 'w cegar) option" where
  "main_loop env opts t c refinement_counter =
     (case main_loop_body env opts t c refinement_counter of
        Inl f \<Rightarrow> Some (Inl f)
      | Inr (c', go_on) \<Rightarrow>
          if go_on then main_loop env opts t c' (refinement_counter + 1)
          else Some (Inr c'))"

text \<open>The object after at most \<open>n\<close> passes through the loop, and whether it goes on.\<close>

fun iterations ::
  "'w environment \<Rightarrow> options \<Rightarrow> task \<Rightarrow> nat \<Rightarrow> 'w cegar \<Rightarrow> cint \<Rightarrow> failure + 'w cegar \<times> bool"
  where
  "iterations env opts t 0 c refinement_counter = Inr (c, True)"
| "iterations env opts t (Suc n) c refinement_counter =
     (case main_loop_body env opts t c refinement_counter of
        Inl f \<Rightarrow> Inl f
      | Inr (c', go_on) \<Rightarrow>
          if go_on then iterations env opts t n c' (refinement_counter + 1)
          else Inr (c', False))"

paragraph \<open>\<open>generate\<close>\<close>

text \<open>
  The random selection of blacklisted variables among the variables that are not
  goals. The bound of the selection loop is the smaller of \<open>global_blacklist_size\<close>,
  converted to \<open>size_t\<close>, and the number of candidates; a negative size converts to a
  number beyond any vector size.
\<close>

definition select_blacklist :: "'w environment \<Rightarrow> options \<Rightarrow> task \<Rightarrow> 'w cegar \<Rightarrow> 'w cegar" where
  "select_blacklist env opts t c =
     (if global_blacklist_size opts \<noteq> 0 then
        (let nongoals = filter (\<lambda>var_id. var_id \<notin> set (remaining_goals c))
                          (map int [0..<num_variables t]);
             (shuffled, w') = shuffle env (world c) nongoals;
             bound = (if global_blacklist_size opts < 0 then length shuffled
                      else min (nat (global_blacklist_size opts)) (length shuffled))
         in c\<lparr>global_blacklist := global_blacklist c \<union> set (take bound shuffled),
              world := w'\<rparr>)
      else c)"

text \<open>
  The result of \<open>generate\<close>: the entries whose patterns and PDBs make up the
  \<open>PatternCollectionInformation\<close>.
\<close>

definition collect_output :: "'w cegar \<Rightarrow> failure + abstract_solution_data list" where
  "collect_output c =
     (if concrete_solution_index c \<noteq> - 1 then
        (if concrete_solution_index c < 0 then Inl INVALID_ACCESS
         else (case entry_at c (nat (concrete_solution_index c)) of
                 None \<Rightarrow> Inl INVALID_ACCESS
               | Some sol \<Rightarrow> Inr [sol]))
      else Inr (concat (map (\<lambda>sol. case sol of None \<Rightarrow> [] | Some e \<Rightarrow> [e]) (solutions c))))"

definition generate ::
  "'w environment \<Rightarrow> options \<Rightarrow> task \<Rightarrow> 'w cegar
     \<Rightarrow> (failure + abstract_solution_data list) option" where
  "generate env opts t c =
     (if given_goal opts \<noteq> - 1 \<and> given_goal opts \<ge> int (num_variables t)
      then Some (Inl SEARCH_INPUT_ERROR)
      else (let c1 = c\<lparr>remaining_goals := remaining_goals c @ map fst (get_goals t)\<rparr>;
                found_given_goal =
                  (given_goal opts \<noteq> - 1 \<and> given_goal opts \<in> set (map fst (get_goals t)))
            in if given_goal opts \<noteq> - 1 \<and> \<not> found_given_goal
               then Some (Inl SEARCH_INPUT_ERROR)
               else (let (shuffled, w') = shuffle env (world c1) (remaining_goals c1);
                         c2 = c1\<lparr>remaining_goals := shuffled, world := w'\<rparr>;
                         c3 = select_blacklist env opts t c2
                     in case generate_trivial_solution_collection env opts c3 of
                          Inl f \<Rightarrow> Some (Inl f)
                        | Inr c4 \<Rightarrow>
                            (case main_loop env opts t c4 0 of
                               None \<Rightarrow> None
                             | Some (Inl f) \<Rightarrow> Some (Inl f)
                             | Some (Inr c5) \<Rightarrow> Some (collect_output c5)))))"

text \<open>The object as the constructor of \<open>Cegar\<close> leaves it.\<close>

definition Cegar :: "'w \<Rightarrow> 'w cegar" where
  "Cegar w =
     \<lparr>remaining_goals = [],
      global_blacklist = {},
      solutions = [],
      solution_lookup = [],
      collection_size = 0,
      concrete_solution_index = - 1,
      world = w\<rparr>"

text \<open>The function \<open>cegar\<close>: a new object, then \<open>generate\<close>.\<close>

definition cegar ::
  "'w environment \<Rightarrow> options \<Rightarrow> task \<Rightarrow> 'w \<Rightarrow> (failure + abstract_solution_data list) option"
  where
  "cegar env opts t w = generate env opts t (Cegar w)"

section \<open>Properties\<close>

subsection \<open>Plan projection, step by step\<close>

text \<open>
  The variables of the violated, non-blacklisted preconditions of the concrete operator
  behind \<open>abs_op_id\<close> in the state \<open>current\<close>, in the order of the preconditions:
  the set the spec calls \<open>F_o\<close>.
\<close>

definition violated_vars ::
  "task \<Rightarrow> int set \<Rightarrow> abstract_solution_data \<Rightarrow> state \<Rightarrow> nat \<Rightarrow> int list" where
  "violated_vars t blacklist solution current abs_op_id =
     map fst (filter (\<lambda>(var, val). var \<notin> blacklist \<and> current var \<noteq> val)
       (get_preconditions t (get_concrete_op_id_for_abs_op_id solution abs_op_id)))"

lemma check_preconditions_eq:
  "check_preconditions blacklist current k pres (fd, flaws) =
     (fd \<or> filter (\<lambda>(var, val). var \<notin> blacklist \<and> current var \<noteq> val) pres \<noteq> [],
      flaws @ map (Pair k)
        (map fst (filter (\<lambda>(var, val). var \<notin> blacklist \<and> current var \<noteq> val) pres)))"
proof (induction pres arbitrary: fd flaws)
  case Nil
  show ?case by simp
next
  case (Cons p pres)
  obtain var val where p: "p = (var, val)" by (cases p)
  show ?case
  proof (cases "var \<in> blacklist")
    case True
    then show ?thesis by (simp add: p Cons.IH)
  next
    case False
    then show ?thesis by (cases "current var = val") (simp_all add: p Cons.IH)
  qed
qed

lemma check_preconditions_violated_vars:
  "check_preconditions blacklist current k
     (get_preconditions t (get_concrete_op_id_for_abs_op_id solution a)) (fd, flaws) =
     (fd \<or> violated_vars t blacklist solution current a \<noteq> [],
      flaws @ map (Pair k) (violated_vars t blacklist solution current a))"
  by (simp add: check_preconditions_eq violated_vars_def)

lemma try_equivalent_ops_eq:
  "try_equivalent_ops t blacklist solution k ops (flaws, current) =
     (case find (\<lambda>a. violated_vars t blacklist solution current a = []) ops of
        Some a \<Rightarrow> (False, [],
          get_unregistered_successor t current (get_concrete_op_id_for_abs_op_id solution a))
      | None \<Rightarrow> (True,
          flaws @ concat (map (\<lambda>a. map (Pair k) (violated_vars t blacklist solution current a)) ops),
          current))"
proof (induction ops arbitrary: flaws)
  case Nil
  show ?case by simp
next
  case (Cons a ops)
  show ?case
  proof (cases "violated_vars t blacklist solution current a = []")
    case True
    then show ?thesis
      by (simp add: check_preconditions_violated_vars)
  next
    case False
    then show ?thesis
      by (simp add: check_preconditions_violated_vars Cons.IH split: option.splits)
  qed
qed

text \<open>
  C1. One step of plan projection, for any entry \<open>k\<close>, state and flaw list so far:
  the operators of the class are tried in order. If one of them has no violated,
  non-blacklisted precondition, the first such is applied to the state, all flaws
  collected are dropped and the projection goes on with the next step. If none is
  applicable, a flaw \<open>(k, v)\<close> is appended for every violated variable \<open>v\<close>, in the order
  they were collected over the operators tried, the state stays as it was and the
  projection of this entry stops at that step. The projection starts with an empty
  flaw list, so the list is empty at the start of every step.
\<close>

theorem execute_plan_step:
  "execute_plan t blacklist solution k (equivalent_ops # plan) (flaws, current) =
     (case find (\<lambda>a. violated_vars t blacklist solution current a = []) equivalent_ops of
        Some a \<Rightarrow>
          execute_plan t blacklist solution k plan
            ([], get_unregistered_successor t current
                   (get_concrete_op_id_for_abs_op_id solution a))
      | None \<Rightarrow>
          (flaws @ concat (map (\<lambda>a. map (Pair k) (violated_vars t blacklist solution current a))
             equivalent_ops),
           current))"
  by (simp add: try_equivalent_ops_eq split: option.splits)

subsection \<open>A small task to evaluate the functions on\<close>

text \<open>
  Two binary variables \<open>0\<close> and \<open>1\<close>, both \<open>0\<close> initially; the goal is that variable
  \<open>0\<close> has value \<open>1\<close>. Operator \<open>0\<close> needs variable \<open>1\<close> to be \<open>1\<close> and sets
  variable \<open>0\<close> to \<open>1\<close>; every other operator sets variable \<open>1\<close> to \<open>1\<close>.
\<close>

definition example_task :: task where
  "example_task =
     \<lparr>num_variables = 2,
      get_domain_size = (\<lambda>var. 2),
      get_preconditions = (\<lambda>op_id. if op_id = 0 then [(1, 1)] else []),
      get_unregistered_successor = (\<lambda>s op_id. if op_id = 0 then s(0 := 1) else s(1 := 1)),
      get_goals = [(0, 1)],
      get_initial_state = (\<lambda>var. 0)\<rparr>"

text \<open>
  A solver for it: the PDB of a pattern has two entries per variable; the plan for
  pattern \<open>[0]\<close> is operator \<open>0\<close>, the plan for \<open>[1]\<close> is operator \<open>1\<close>, the plan for
  \<open>[0, 1]\<close> is operator \<open>1\<close>, then operator \<open>0\<close>; abstract and concrete operator ids agree. The world outside has no state; the
  random number generator always answers \<open>0\<close>, the shuffle keeps the order and the
  timer never expires.
\<close>

definition example_solver :: "unit \<Rightarrow> pattern \<Rightarrow> abstract_solution_data \<times> unit" where
  "example_solver w p =
     (\<lparr>get_pattern = p,
       pdb_size = 2 ^ length p,
       get_plan = (if p = [0] then [[0]] else if p = [1] then [[1]]
                   else if p = [0, 1] then [[1], [0]] else []),
       get_concrete_op_id_for_abs_op_id = (\<lambda>abs_op_id. abs_op_id),
       is_solved = False,
       solution_exists = True\<rparr>, w)"

definition example_env :: "unit environment" where
  "example_env =
     \<lparr>solver = example_solver,
      random_below = (\<lambda>w bound. (0, w)),
      shuffle = (\<lambda>w xs. (xs, w)),
      is_expired = (\<lambda>w. (False, w))\<rparr>"

definition example_options :: options where
  "example_options =
     \<lparr>max_refinements = 10,
      max_pdb_size = 1000000,
      max_collection_size = 2147483647,
      ignore_goal_violations = False,
      global_blacklist_size = 0,
      initial = ALL_GOALS,
      given_goal = - 1\<rparr>"

subsection \<open>Adding a singleton pattern\<close>

text \<open>
  What the spec asks of \<open>add_new_singleton(var)\<close>, as a relation between the
  collection \<open>c\<close> before and \<open>c'\<close> after: the new entry has pattern \<open>[var]\<close> and is
  appended, \<open>lookup[var]\<close> is its index, its PDB size is added to
  \<open>collection_size\<close>, and \<open>remaining_goals\<close> is the list \<open>remaining\<close>, from which
  \<open>var\<close> is removed.
\<close>

definition new_singleton_added ::
  "'w cegar \<Rightarrow> int \<Rightarrow> abstract_solution_data \<Rightarrow> int list \<Rightarrow> 'w cegar \<Rightarrow> bool" where
  "new_singleton_added c var new_solution remaining c' =
     (get_pattern new_solution = [var]
      \<and> solutions c' = solutions c @ [Some new_solution]
      \<and> map_of (solution_lookup c') var = Some (length (solutions c))
      \<and> collection_size c' = collection_size c + pdb_size new_solution
      \<and> remaining_goals c' = remaining)"

lemma new_singleton_added_add_pattern_for_var:
  assumes "AbstractSolutionData env (world c) [var] = (new_solution, w')"
  shows "new_singleton_added c var new_solution (remaining_goals c)
           (add_pattern_for_var env c var)"
proof -
  have "get_pattern new_solution = [var]"
    using assms by (auto simp: AbstractSolutionData_def split: prod.splits)
  with assms show ?thesis
    by (simp add: new_singleton_added_def add_pattern_for_var_def update_conv')
qed

text \<open>
  C9. \<open>add_pattern_for_var\<close> is private and called at three places, all in
  \<open>generate_trivial_solution_collection\<close>, each time right after the variable was
  taken out of \<open>remaining_goals\<close> (by \<open>update_goals\<close> for a given goal, by
  \<open>pop_back\<close> for the last goal of the list). At each of them the operation creates
  an entry with pattern \<open>[var]\<close>, appends it, sets \<open>solution_lookup[var]\<close> to its
  index, adds the size of its PDB to \<open>collection_size\<close> and has \<open>var\<close> removed from
  \<open>remaining_goals\<close>: for \<open>GIVEN_GOAL\<close> and \<open>RANDOM_GOAL\<close> this is the whole
  seeding, for \<open>ALL_GOALS\<close> it is one pass through the loop, which then goes on from
  the collection so extended. With every goal variable once in the list, as
  \<open>generate\<close> fills it, \<open>var\<close> is no longer in \<open>remaining_goals\<close> afterwards.
\<close>

theorem seeding_adds_new_singleton:
  assumes "remaining_goals c \<noteq> []"
  shows
    "(initial opts = GIVEN_GOAL \<and> given_goal opts = var \<and> var \<noteq> - 1
        \<and> AbstractSolutionData env (world c) [var] = (new_solution, w') \<longrightarrow>
        (case generate_trivial_solution_collection env opts c of
           Inl f \<Rightarrow> False
         | Inr c' \<Rightarrow>
             new_singleton_added c var new_solution (remove1 var (remaining_goals c)) c'))
     \<and> (initial opts = RANDOM_GOAL \<and> last (remaining_goals c) = var
          \<and> AbstractSolutionData env (world c) [var] = (new_solution, w') \<longrightarrow>
          (case generate_trivial_solution_collection env opts c of
             Inl f \<Rightarrow> False
           | Inr c' \<Rightarrow>
               new_singleton_added c var new_solution (butlast (remaining_goals c)) c'))
     \<and> (initial opts = ALL_GOALS \<longrightarrow>
          generate_trivial_solution_collection env opts c = Inr (all_goals_loop env c))
     \<and> (last (remaining_goals c) = var
          \<and> AbstractSolutionData env (world c) [var] = (new_solution, w') \<longrightarrow>
          (\<exists>c'. all_goals_loop env c = all_goals_loop env c'
                \<and> new_singleton_added c var new_solution (butlast (remaining_goals c)) c'))
     \<and> (distinct (remaining_goals c) \<longrightarrow>
          var \<notin> set (remove1 var (remaining_goals c))
          \<and> (last (remaining_goals c) = var \<longrightarrow> var \<notin> set (butlast (remaining_goals c))))"
proof -
  let ?popped = "c\<lparr>remaining_goals := butlast (remaining_goals c)\<rparr>"
  have given: "case generate_trivial_solution_collection env opts c of
                 Inl f \<Rightarrow> False
               | Inr c' \<Rightarrow>
                   new_singleton_added c var new_solution (remove1 var (remaining_goals c)) c'"
    if "initial opts = GIVEN_GOAL" "given_goal opts = var" "var \<noteq> - 1"
      "AbstractSolutionData env (world c) [var] = (new_solution, w')"
  proof -
    have "AbstractSolutionData env (world (update_goals c var)) [var] = (new_solution, w')"
      using that(4) by (simp add: update_goals_def)
    then have "new_singleton_added (update_goals c var) var new_solution
                 (remaining_goals (update_goals c var))
                 (add_pattern_for_var env (update_goals c var) var)"
      by (rule new_singleton_added_add_pattern_for_var)
    then have "new_singleton_added c var new_solution (remove1 var (remaining_goals c))
                 (add_pattern_for_var env (update_goals c var) var)"
      by (simp add: new_singleton_added_def update_goals_def)
    with assms that(1-3) show ?thesis
      by (simp add: generate_trivial_solution_collection_def)
  qed
  have popped: "new_singleton_added c var new_solution (butlast (remaining_goals c))
                  (add_pattern_for_var env ?popped var)"
    if "AbstractSolutionData env (world c) [var] = (new_solution, w')"
  proof -
    have "AbstractSolutionData env (world ?popped) [var] = (new_solution, w')"
      using that by simp
    then have "new_singleton_added ?popped var new_solution (remaining_goals ?popped)
                 (add_pattern_for_var env ?popped var)"
      by (rule new_singleton_added_add_pattern_for_var)
    then show ?thesis by (simp add: new_singleton_added_def)
  qed
  have random: "case generate_trivial_solution_collection env opts c of
                  Inl f \<Rightarrow> False
                | Inr c' \<Rightarrow>
                    new_singleton_added c var new_solution (butlast (remaining_goals c)) c'"
    if "initial opts = RANDOM_GOAL" "last (remaining_goals c) = var"
      "AbstractSolutionData env (world c) [var] = (new_solution, w')"
    using assms that(1,2) popped [OF that(3)]
    by (simp add: generate_trivial_solution_collection_def Let_def)
  have all: "generate_trivial_solution_collection env opts c = Inr (all_goals_loop env c)"
    if "initial opts = ALL_GOALS"
    using assms that by (simp add: generate_trivial_solution_collection_def)
  have step: "\<exists>c'. all_goals_loop env c = all_goals_loop env c'
                \<and> new_singleton_added c var new_solution (butlast (remaining_goals c)) c'"
    if "last (remaining_goals c) = var"
      "AbstractSolutionData env (world c) [var] = (new_solution, w')"
  proof -
    have "all_goals_loop env c = all_goals_loop env (add_pattern_for_var env ?popped var)"
      using assms that(1) by (subst all_goals_loop.simps) (simp add: Let_def)
    with popped [OF that(2)] show ?thesis by blast
  qed
  have gone: "var \<notin> set (remove1 var (remaining_goals c))
              \<and> (last (remaining_goals c) = var \<longrightarrow> var \<notin> set (butlast (remaining_goals c)))"
    if d: "distinct (remaining_goals c)"
  proof -
    have "var \<notin> set (remove1 var (remaining_goals c))"
      using d by simp
    moreover have "var \<notin> set (butlast (remaining_goals c))" if "last (remaining_goals c) = var"
    proof -
      have "remaining_goals c = butlast (remaining_goals c) @ [var]"
        using assms that by (metis append_butlast_last_id)
      with d have "distinct (butlast (remaining_goals c) @ [var])" by simp
      then show ?thesis by simp
    qed
    ultimately show ?thesis by simp
  qed
  show ?thesis
    using given random all step gone by blast
qed

text \<open>
  The example with \<open>remaining_goals = [1, 0]\<close>: seeding with the given goal \<open>0\<close> and
  with the last goal of the list, which is \<open>0\<close> as well.
\<close>

theorem seeding_adds_new_singleton_witness:
  "generate_trivial_solution_collection example_env
     (example_options\<lparr>initial := GIVEN_GOAL, given_goal := 0\<rparr>)
     ((Cegar ())\<lparr>remaining_goals := [1, 0]\<rparr>)
     = Inr \<lparr>remaining_goals = [1], global_blacklist = {},
            solutions = [Some (fst (example_solver () [0]))],
            solution_lookup = [(0, 0)], collection_size = 2,
            concrete_solution_index = - 1, world = ()\<rparr>
   \<and> new_singleton_added ((Cegar ())\<lparr>remaining_goals := [1, 0]\<rparr>) 0
        (fst (example_solver () [0])) [1]
        \<lparr>remaining_goals = [1], global_blacklist = {},
          solutions = [Some (fst (example_solver () [0]))],
          solution_lookup = [(0, 0)], collection_size = 2,
          concrete_solution_index = - 1, world = ()\<rparr>
   \<and> generate_trivial_solution_collection example_env
       (example_options\<lparr>initial := RANDOM_GOAL\<rparr>)
       ((Cegar ())\<lparr>remaining_goals := [1, 0]\<rparr>)
       = Inr \<lparr>remaining_goals = [1], global_blacklist = {},
              solutions = [Some (fst (example_solver () [0]))],
              solution_lookup = [(0, 0)], collection_size = 2,
              concrete_solution_index = - 1, world = ()\<rparr>
   \<and> generate_trivial_solution_collection example_env example_options
       ((Cegar ())\<lparr>remaining_goals := [1, 0]\<rparr>)
       = Inr (all_goals_loop example_env ((Cegar ())\<lparr>remaining_goals := [1, 0]\<rparr>))
   \<and> (0::int) \<notin> set (remove1 0 [1, 0])"
proof -
  let ?c = "(Cegar ())\<lparr>remaining_goals := [1, 0]\<rparr>"
  let ?given = "example_options\<lparr>initial := GIVEN_GOAL, given_goal := 0\<rparr>"
  let ?random = "example_options\<lparr>initial := RANDOM_GOAL\<rparr>"
  let ?c' = "\<lparr>remaining_goals = [1], global_blacklist = {},
              solutions = [Some (fst (example_solver () [0]))],
              solution_lookup = [(0, 0)], collection_size = 2,
              concrete_solution_index = - 1, world = ()\<rparr> :: unit cegar"
  have ne: "remaining_goals ?c \<noteq> []" by simp
  have h: "AbstractSolutionData example_env (world ?c) [0] = (fst (example_solver () [0]), ())"
    by (simp add: AbstractSolutionData_def example_env_def example_solver_def)
  have g: "generate_trivial_solution_collection example_env ?given ?c = Inr ?c'"
    by (simp add: generate_trivial_solution_collection_def update_goals_def
          add_pattern_for_var_def AbstractSolutionData_def example_env_def
          example_solver_def example_options_def Cegar_def)
  have r: "generate_trivial_solution_collection example_env ?random ?c = Inr ?c'"
    by (simp add: generate_trivial_solution_collection_def
          add_pattern_for_var_def AbstractSolutionData_def example_env_def
          example_solver_def example_options_def Cegar_def)
  have i: "initial ?given = GIVEN_GOAL" "given_goal ?given = 0" "initial ?random = RANDOM_GOAL"
    "initial example_options = ALL_GOALS" "last (remaining_goals ?c) = 0"
    "remaining_goals ?c = [1, 0]" "distinct (remaining_goals ?c)"
    by (simp_all add: example_options_def)
  note given = seeding_adds_new_singleton
    [OF ne, of ?given 0 example_env "fst (example_solver () [0])" "()"]
  note other = seeding_adds_new_singleton
    [OF ne, of example_options 0 example_env "fst (example_solver () [0])" "()"]
  have a: "new_singleton_added ?c 0 (fst (example_solver () [0])) [1] ?c'"
    using given g h i by simp
  have b: "generate_trivial_solution_collection example_env example_options ?c
             = Inr (all_goals_loop example_env ?c)"
    using other i by blast
  have d: "(0::int) \<notin> set (remove1 0 [1, 0])"
    using other i by simp
  show ?thesis using g a r b d by simp
qed

subsection \<open>Size feasibility\<close>

lemma sint_range32: "- (2 ^ 31) \<le> sint (x :: 32 word) \<and> sint x < 2 ^ 31"
  using sint_ge [of x] sint_lt [of x] by simp

lemma sint_mult_in_range:
  fixes a b :: "32 word"
  assumes "- (2 ^ 31) \<le> sint a * sint b" "sint a * sint b < 2 ^ 31"
  shows "sint (a * b) = sint a * sint b"
  using assms by (simp add: sint_word_ariths signed_take_bit_int_eq_self)

lemma sint_minus_in_range:
  fixes a b :: "32 word"
  assumes "- (2 ^ 31) \<le> sint a - sint b" "sint a - sint b < 2 ^ 31"
  shows "sint (a - b) = sint a - sint b"
  using assms by (simp add: sint_word_ariths signed_take_bit_int_eq_self)

lemma sint_plus_in_range:
  fixes a b :: "32 word"
  assumes "- (2 ^ 31) \<le> sint a + sint b" "sint a + sint b < 2 ^ 31"
  shows "sint (a + b) = sint a + sint b"
  using assms by (simp add: sint_word_ariths signed_take_bit_int_eq_self)

text \<open>
  After the overflow-checked comparison has passed, the products and differences of
  \<open>added_size\<close> do not overflow.
\<close>

lemma added_size_extend:
  fixes a b l :: "32 word"
  assumes "0 \<le> sint a" "0 \<le> sint b" "sint a * sint b \<le> sint l"
  shows "sint (a * b - a) = sint a * (sint b - 1)"
proof -
  have l: "sint l < 2 ^ 31" using sint_range32 [of l] by simp
  have a: "sint a < 2 ^ 31" using sint_range32 [of a] by simp
  have nonneg: "0 \<le> sint a * sint b" using assms by simp
  have m: "sint (a * b) = sint a * sint b"
  proof (rule sint_mult_in_range)
    show "- (2 ^ 31) \<le> sint a * sint b" using nonneg by simp
    show "sint a * sint b < 2 ^ 31" using assms(3) l by simp
  qed
  have "sint (a * b - a) = sint (a * b) - sint a"
  proof (rule sint_minus_in_range)
    show "- (2 ^ 31) \<le> sint (a * b) - sint a" using m nonneg a by simp
    show "sint (a * b) - sint a < 2 ^ 31" using m assms l by simp
  qed
  with m show ?thesis by (simp add: algebra_simps)
qed

lemma added_size_merge:
  fixes a b l :: "32 word"
  assumes "0 < sint a" "0 < sint b" "sint a * sint b \<le> sint l"
  shows "sint (a * b - a - b) = sint a * sint b - sint a - sint b"
proof -
  have l: "sint l < 2 ^ 31" using sint_range32 [of l] by simp
  have e: "sint (a * b - a) = sint a * (sint b - 1)"
    using assms added_size_extend [of a b l] by simp
  have "0 \<le> (sint a - 1) * (sint b - 1)" using assms by simp
  then have ge: "- 1 \<le> sint a * sint b - sint a - sint b" by (simp add: algebra_simps)
  have "sint (a * b - a - b) = sint (a * b - a) - sint b"
  proof (rule sint_minus_in_range)
    show "- (2 ^ 31) \<le> sint (a * b - a) - sint b" using e ge by (simp add: algebra_simps)
    show "sint (a * b - a) - sint b < 2 ^ 31" using e assms l by (simp add: algebra_simps)
  qed
  with e show ?thesis by (simp add: algebra_simps)
qed

text \<open>
  Where the sum of \<open>collection_size\<close> and \<open>added_size\<close> is in the range of the type
  \<open>int\<close>, both predicates decide what the spec's formulas say.
\<close>

lemma can_add_variable_to_pattern_in_range:
  assumes "0 \<le> sint (pdb_size solution)" "0 \<le> sint (get_domain_size t var)"
    and "sint (collection_size c)
           + sint (pdb_size solution) * (sint (get_domain_size t var) - 1) < 2 ^ 31"
    and "- (2 ^ 31) \<le> sint (collection_size c)
           + sint (pdb_size solution) * (sint (get_domain_size t var) - 1)"
  shows "can_add_variable_to_pattern opts t c solution var \<longleftrightarrow>
           sint (pdb_size solution) * sint (get_domain_size t var) \<le> sint (max_pdb_size opts)
         \<and> sint (collection_size c)
             + sint (pdb_size solution) * (sint (get_domain_size t var) - 1)
             \<le> sint (max_collection_size opts)"
proof (cases "is_product_within_limit (pdb_size solution) (get_domain_size t var)
                (max_pdb_size opts)")
  case False
  then show ?thesis
    by (simp add: can_add_variable_to_pattern_def is_product_within_limit_def)
next
  case True
  then have p: "sint (pdb_size solution) * sint (get_domain_size t var)
                  \<le> sint (max_pdb_size opts)"
    by (simp add: is_product_within_limit_def)
  have e: "sint (pdb_size solution * get_domain_size t var - pdb_size solution)
             = sint (pdb_size solution) * (sint (get_domain_size t var) - 1)"
    using assms(1,2) p by (rule added_size_extend)
  have "sint (collection_size c + (pdb_size solution * get_domain_size t var - pdb_size solution))
          = sint (collection_size c)
            + sint (pdb_size solution * get_domain_size t var - pdb_size solution)"
  proof (rule sint_plus_in_range)
    show "- (2 ^ 31) \<le> sint (collection_size c)
            + sint (pdb_size solution * get_domain_size t var - pdb_size solution)"
      using e assms(4) by simp
    show "sint (collection_size c)
            + sint (pdb_size solution * get_domain_size t var - pdb_size solution) < 2 ^ 31"
      using e assms(3) by simp
  qed
  with e True p show ?thesis
    by (simp add: can_add_variable_to_pattern_def word_sle_eq)
qed

lemma can_merge_patterns_in_range:
  assumes "0 < sint (pdb_size solution1)" "0 < sint (pdb_size solution2)"
    and "sint (collection_size c) + (sint (pdb_size solution1) * sint (pdb_size solution2)
           - sint (pdb_size solution1) - sint (pdb_size solution2)) < 2 ^ 31"
    and "- (2 ^ 31) \<le> sint (collection_size c)
           + (sint (pdb_size solution1) * sint (pdb_size solution2)
              - sint (pdb_size solution1) - sint (pdb_size solution2))"
  shows "can_merge_patterns opts c solution1 solution2 \<longleftrightarrow>
           sint (pdb_size solution1) * sint (pdb_size solution2) \<le> sint (max_pdb_size opts)
         \<and> sint (collection_size c) + sint (pdb_size solution1) * sint (pdb_size solution2)
             - sint (pdb_size solution1) - sint (pdb_size solution2)
             \<le> sint (max_collection_size opts)"
proof (cases "is_product_within_limit (pdb_size solution1) (pdb_size solution2)
                (max_pdb_size opts)")
  case False
  then show ?thesis
    by (simp add: can_merge_patterns_def is_product_within_limit_def)
next
  case True
  then have p: "sint (pdb_size solution1) * sint (pdb_size solution2)
                  \<le> sint (max_pdb_size opts)"
    by (simp add: is_product_within_limit_def)
  have e: "sint (pdb_size solution1 * pdb_size solution2 - pdb_size solution1
                 - pdb_size solution2)
             = sint (pdb_size solution1) * sint (pdb_size solution2)
               - sint (pdb_size solution1) - sint (pdb_size solution2)"
    using assms(1,2) p by (rule added_size_merge)
  have "sint (collection_size c
              + (pdb_size solution1 * pdb_size solution2 - pdb_size solution1
                 - pdb_size solution2))
          = sint (collection_size c)
            + sint (pdb_size solution1 * pdb_size solution2 - pdb_size solution1
                    - pdb_size solution2)"
  proof (rule sint_plus_in_range)
    show "- (2 ^ 31) \<le> sint (collection_size c)
            + sint (pdb_size solution1 * pdb_size solution2 - pdb_size solution1
                    - pdb_size solution2)"
      using e assms(4) by simp
    show "sint (collection_size c)
            + sint (pdb_size solution1 * pdb_size solution2 - pdb_size solution1
                    - pdb_size solution2) < 2 ^ 31"
      using e assms(3) by simp
  qed
  then have "collection_size c
              + (pdb_size solution1 * pdb_size solution2 - pdb_size solution1
                 - pdb_size solution2) \<le>s max_collection_size opts
          \<longleftrightarrow> sint (collection_size c)
                + sint (pdb_size solution1) * sint (pdb_size solution2)
                - sint (pdb_size solution1) - sint (pdb_size solution2)
                \<le> sint (max_collection_size opts)"
    unfolding word_sle_eq e by linarith
  with True p show ?thesis
    by (simp add: can_merge_patterns_def Let_def)
qed

text \<open>
  A collection close to the range of \<open>int\<close>: the limit on the collection is
  2147000000, the collection holds 2146999000 entries, the PDB at hand has 1000 and
  the variable to add has 1000 values.
\<close>

definition large_options :: options where
  "large_options = example_options\<lparr>max_collection_size := 2147000000\<rparr>"

definition large_cegar :: "unit cegar" where
  "large_cegar = (Cegar ())\<lparr>collection_size := 2146999000\<rparr>"

definition large_task :: task where
  "large_task = example_task\<lparr>get_domain_size := (\<lambda>var. 1000)\<rparr>"

definition large_solution :: abstract_solution_data where
  "large_solution = fst (example_solver () [0])\<lparr>pdb_size := 1000\<rparr>"

text \<open>
  C8, at that collection. The product 1000000 is within \<open>max_pdb_size\<close>, and the
  collection would grow to 2147998000 (extension) or 2147997000 (merge), beyond the
  limit of 2147000000: the formulas of the claim say no. The sum
  \<open>collection_size + added_size\<close> is beyond the range of \<open>int\<close>, wraps around to a
  negative number, and both functions say yes.
\<close>

theorem size_checks_wrap_around:
  "can_add_variable_to_pattern large_options large_task large_cegar large_solution 1
   \<and> \<not> (sint (pdb_size large_solution) * sint (get_domain_size large_task 1)
            \<le> sint (max_pdb_size large_options)
        \<and> sint (collection_size large_cegar)
            + sint (pdb_size large_solution) * (sint (get_domain_size large_task 1) - 1)
            \<le> sint (max_collection_size large_options))
   \<and> can_merge_patterns large_options large_cegar large_solution large_solution
   \<and> \<not> (sint (pdb_size large_solution) * sint (pdb_size large_solution)
            \<le> sint (max_pdb_size large_options)
        \<and> sint (collection_size large_cegar)
            + sint (pdb_size large_solution) * sint (pdb_size large_solution)
            - sint (pdb_size large_solution) - sint (pdb_size large_solution)
            \<le> sint (max_collection_size large_options))"
  by (simp add: can_add_variable_to_pattern_def can_merge_patterns_def
        is_product_within_limit_def large_options_def large_task_def large_cegar_def
        large_solution_def example_options_def example_task_def example_solver_def Cegar_def)

subsection \<open>The end of plan projection\<close>

lemma collect_goal_flaws_eq:
  "collect_goal_flaws blacklist remaining current k goals flaws =
     flaws @ map (Pair k)
       (filter (\<lambda>g. g \<notin> blacklist \<and> g \<in> set remaining)
          (map fst (filter (\<lambda>(g, val). current g \<noteq> val) goals)))"
proof (induction goals arbitrary: flaws)
  case Nil
  show ?case by simp
next
  case (Cons goal goals)
  obtain g val where goal: "goal = (g, val)" by (cases goal)
  show ?case
    by (cases "current g = val") (simp_all add: goal Cons.IH)
qed

text \<open>
  A plan in which every step has an applicable operator is executed to its end and
  leaves no flaw. The function follows the spec's words: the first applicable operator
  of each step is applied.
\<close>

fun executes_to_completion ::
  "task \<Rightarrow> int set \<Rightarrow> abstract_solution_data \<Rightarrow> state \<Rightarrow> nat list list \<Rightarrow> state option" where
  "executes_to_completion t blacklist solution current [] = Some current"
| "executes_to_completion t blacklist solution current (equivalent_ops # plan) =
     (case find (\<lambda>a. violated_vars t blacklist solution current a = []) equivalent_ops of
        None \<Rightarrow> None
      | Some a \<Rightarrow>
          executes_to_completion t blacklist solution
            (get_unregistered_successor t current
               (get_concrete_op_id_for_abs_op_id solution a)) plan)"

lemma executes_to_completion_execute_plan:
  "executes_to_completion t blacklist solution current plan = Some final
   \<Longrightarrow> execute_plan t blacklist solution k plan (flaws, current)
       = (if plan = [] then flaws else [], final)"
proof (induction plan arbitrary: current flaws)
  case Nil
  then show ?case by simp
next
  case (Cons equivalent_ops plan)
  then obtain a where
    a: "find (\<lambda>a. violated_vars t blacklist solution current a = []) equivalent_ops = Some a"
    by (auto split: option.splits)
  with Cons.prems have
    "executes_to_completion t blacklist solution
       (get_unregistered_successor t current (get_concrete_op_id_for_abs_op_id solution a))
       plan = Some final"
    by simp
  from Cons.IH [OF this, of "[]"] a show ?case
    by (simp add: try_equivalent_ops_eq)
qed

text \<open>
  C3. When the projection of the plan of entry \<open>k\<close> from \<open>init\<close> ends without a flaw
  (as it does when the plan is executed to completion) in a goal state of the task,
  \<open>apply_wildcard_plan\<close> returns the empty flaw list; with an empty blacklist it sets
  \<open>concrete_solution_index\<close> to \<open>k\<close> and changes nothing else, with a non-empty
  blacklist it marks the entry as solved, whatever the blacklisted variables are, and
  changes nothing else.
\<close>

theorem apply_wildcard_plan_goal_reached:
  assumes "execute_plan t (global_blacklist c) solution k (get_plan solution) ([], init)
             = ([], current)"
    and "is_goal_state t current"
  shows "apply_wildcard_plan opts t c k solution init =
           ([], if global_blacklist c = {}
                then c\<lparr>concrete_solution_index := int k\<rparr>
                else c\<lparr>solutions := (solutions c)[k := Some (solution\<lparr>is_solved := True\<rparr>)]\<rparr>)"
  using assms by (simp add: apply_wildcard_plan_def mark_as_solved_def)

text \<open>
  The entry for pattern \<open>[0, 1]\<close> of the example: its plan is executed to completion
  and reaches the goal. With the empty blacklist the task is solved; with variable \<open>5\<close>
  blacklisted the entry is marked as solved.
\<close>

definition solved_cegar :: "unit cegar" where
  "solved_cegar =
     (Cegar ())\<lparr>solutions := [Some (fst (example_solver () [0, 1]))],
                solution_lookup := [(0, 0), (1, 0)],
                collection_size := 4\<rparr>"

theorem apply_wildcard_plan_goal_reached_witness:
  "executes_to_completion example_task {} (fst (example_solver () [0, 1]))
     (get_initial_state example_task) (get_plan (fst (example_solver () [0, 1])))
     = Some ((\<lambda>var. 0)(1 := 1, 0 := 1))
   \<and> is_goal_state example_task ((\<lambda>var. 0)(1 := 1, 0 := 1))
   \<and> apply_wildcard_plan example_options example_task solved_cegar 0
        (fst (example_solver () [0, 1])) (get_initial_state example_task)
       = ([], solved_cegar\<lparr>concrete_solution_index := 0\<rparr>)
   \<and> apply_wildcard_plan example_options example_task
        (solved_cegar\<lparr>global_blacklist := {5}\<rparr>) 0
        (fst (example_solver () [0, 1])) (get_initial_state example_task)
       = ([], solved_cegar\<lparr>global_blacklist := {5},
                solutions := [Some (fst (example_solver () [0, 1])\<lparr>is_solved := True\<rparr>)]\<rparr>)"
proof -
  let ?e = "fst (example_solver () [0, 1])"
  let ?s = "(\<lambda>var. 0::int)(1 := 1, 0 := 1)"
  have x: "executes_to_completion example_task {} ?e (get_initial_state example_task)
             (get_plan ?e) = Some ?s"
    by (simp add: example_task_def example_solver_def violated_vars_def)
  have x5: "executes_to_completion example_task {5} ?e (get_initial_state example_task)
             (get_plan ?e) = Some ?s"
    by (simp add: example_task_def example_solver_def violated_vars_def)
  have g: "is_goal_state example_task ?s"
    by (simp add: is_goal_state_def example_task_def)
  have b: "global_blacklist solved_cegar = {}"
    by (simp add: solved_cegar_def Cegar_def)
  have p: "execute_plan example_task (global_blacklist solved_cegar) ?e 0 (get_plan ?e)
             ([], get_initial_state example_task) = ([], ?s)"
    using executes_to_completion_execute_plan [OF x, of 0 "[]"] b
    by (simp add: example_solver_def)
  have p5: "execute_plan example_task
              (global_blacklist (solved_cegar\<lparr>global_blacklist := {5}\<rparr>)) ?e 0 (get_plan ?e)
              ([], get_initial_state example_task) = ([], ?s)"
    using executes_to_completion_execute_plan [OF x5, of 0 "[]"]
    by (simp add: example_solver_def)
  have s: "solutions solved_cegar = [Some ?e]"
    by (simp add: solved_cegar_def)
  show ?thesis
    using apply_wildcard_plan_goal_reached [OF p g, of example_options]
      apply_wildcard_plan_goal_reached [OF p5 g, of example_options] x g b s
    by simp
qed

lemma collect_goal_flaws_filter:
  "collect_goal_flaws blacklist remaining current k goals flaws =
     flaws @ map (\<lambda>(g, val). (k, g))
       (filter (\<lambda>(g, val). current g \<noteq> val \<and> g \<notin> blacklist \<and> g \<in> set remaining) goals)"
proof (induction goals arbitrary: flaws)
  case Nil
  show ?case by simp
next
  case (Cons goal goals)
  obtain g val where goal: "goal = (g, val)" by (cases goal)
  show ?case
    by (cases "current g = val") (simp_all add: goal Cons.IH)
qed

lemma distinct_goal_flaws:
  fixes goals :: "fact list" and k :: nat
  assumes "distinct (map fst goals)"
  shows "distinct (map (\<lambda>(g, val). (k, g)) (filter P goals))"
proof -
  have e: "map (\<lambda>(g, val). (k, g)) xs = map (Pair k) (map fst xs)" for xs :: "fact list"
    by (induction xs) auto
  have "distinct (map fst (filter P goals))"
    using assms by (rule distinct_map_filter)
  then have "distinct (map (Pair k) (map fst (filter P goals)))"
    by (subst distinct_map) (simp add: inj_on_def)
  then show ?thesis by (simp only: e)
qed

text \<open>
  C4. When the projection of the plan of entry \<open>k\<close> ends without a flaw in a state that
  is not a goal state and \<open>ignore_goal_violations\<close> is false, the returned flaws are
  the \<open>(k, g)\<close> for the goal facts on \<open>g\<close>, in the order of the goal, whose value
  differs in the state reached and whose variable is neither blacklisted nor missing
  from \<open>remaining_goals\<close>: one flaw for each such goal variable, the goal having one
  fact per variable. The object is returned as it was, so the entry is not marked as
  solved, whether the list is empty or not.
\<close>

theorem apply_wildcard_plan_goal_violations:
  assumes "execute_plan t (global_blacklist c) solution k (get_plan solution) ([], init)
             = ([], current)"
    and "\<not> is_goal_state t current"
    and "\<not> ignore_goal_violations opts"
  shows "apply_wildcard_plan opts t c k solution init =
           (map (\<lambda>(g, val). (k, g))
              (filter (\<lambda>(g, val). current g \<noteq> val \<and> g \<notin> global_blacklist c
                                  \<and> g \<in> set (remaining_goals c))
                 (get_goals t)), c)
       \<and> (distinct (map fst (get_goals t))
            \<longrightarrow> distinct (fst (apply_wildcard_plan opts t c k solution init)))"
proof -
  have eq: "apply_wildcard_plan opts t c k solution init =
           (map (\<lambda>(g, val). (k, g))
              (filter (\<lambda>(g, val). current g \<noteq> val \<and> g \<notin> global_blacklist c
                                  \<and> g \<in> set (remaining_goals c))
                 (get_goals t)), c)"
    using assms by (simp add: apply_wildcard_plan_def collect_goal_flaws_filter)
  show ?thesis
    unfolding eq by (simp add: distinct_goal_flaws)
qed

text \<open>
  A task with the two goals that variables \<open>0\<close> and \<open>1\<close> are \<open>1\<close>, and the entry for
  pattern \<open>[0]\<close> with the empty plan: with both variables in \<open>remaining_goals\<close> both are
  reported; with \<open>remaining_goals\<close> empty nothing is reported and the entry stays
  unsolved.
\<close>

definition two_goals_task :: task where
  "two_goals_task = example_task\<lparr>get_goals := [(0, 1), (1, 1)]\<rparr>"

definition idle_solution :: abstract_solution_data where
  "idle_solution = fst (example_solver () [0])\<lparr>get_plan := []\<rparr>"

definition idle_cegar :: "unit cegar" where
  "idle_cegar =
     (Cegar ())\<lparr>solutions := [Some idle_solution],
                solution_lookup := [(0, 0)],
                collection_size := 2\<rparr>"

theorem apply_wildcard_plan_goal_violations_witness:
  "\<not> is_goal_state two_goals_task (get_initial_state two_goals_task)
   \<and> \<not> ignore_goal_violations example_options
   \<and> distinct (map fst (get_goals two_goals_task))
   \<and> apply_wildcard_plan example_options two_goals_task
        (idle_cegar\<lparr>remaining_goals := [1, 0]\<rparr>) 0 idle_solution
        (get_initial_state two_goals_task)
       = ([(0, 0), (0, 1)], idle_cegar\<lparr>remaining_goals := [1, 0]\<rparr>)
   \<and> apply_wildcard_plan example_options two_goals_task idle_cegar 0 idle_solution
        (get_initial_state two_goals_task)
       = ([], idle_cegar)
   \<and> solutions idle_cegar = [Some idle_solution]
   \<and> \<not> is_solved idle_solution"
proof -
  let ?init = "get_initial_state two_goals_task"
  have p: "execute_plan two_goals_task (global_blacklist c) idle_solution 0
             (get_plan idle_solution) ([], ?init) = ([], ?init)" for c :: "unit cegar"
    by (simp add: idle_solution_def)
  have g: "\<not> is_goal_state two_goals_task ?init"
    by (simp add: is_goal_state_def two_goals_task_def example_task_def)
  have i: "\<not> ignore_goal_violations example_options"
    by (simp add: example_options_def)
  have d: "distinct (map fst (get_goals two_goals_task))"
    by (simp add: two_goals_task_def)
  have v: "get_goals two_goals_task = [(0, 1), (1, 1)]" "?init = (\<lambda>var. 0)"
    by (simp_all add: two_goals_task_def example_task_def)
  have r: "remaining_goals idle_cegar = []" "global_blacklist idle_cegar = {}"
    by (simp_all add: idle_cegar_def Cegar_def)
  have s: "solutions idle_cegar = [Some idle_solution]" "\<not> is_solved idle_solution"
    by (simp_all add: idle_cegar_def idle_solution_def example_solver_def)
  show ?thesis
    using apply_wildcard_plan_goal_violations [OF p g i, of "idle_cegar\<lparr>remaining_goals := [1, 0]\<rparr>"]
      apply_wildcard_plan_goal_violations [OF p g i, of idle_cegar] g i d s
    by (simp add: v r)
qed

subsection \<open>The lookup table and the live patterns\<close>

text \<open>
  Variable \<open>v\<close> is in the pattern of the live entry at index \<open>i\<close>; variable \<open>v\<close> is in
  the pattern of no live entry.
\<close>

definition in_live_pattern :: "'w cegar \<Rightarrow> nat \<Rightarrow> int \<Rightarrow> bool" where
  "in_live_pattern c i v =
     (case entry_at c i of None \<Rightarrow> False | Some e \<Rightarrow> v \<in> set (get_pattern e))"

definition in_no_live_pattern :: "'w cegar \<Rightarrow> int \<Rightarrow> bool" where
  "in_no_live_pattern c v =
     list_all (\<lambda>s. case s of None \<Rightarrow> True | Some e \<Rightarrow> v \<notin> set (get_pattern e)) (solutions c)"

text \<open>
  The invariant of \<open>solution_lookup\<close> (invariant 2 of the collection state in the
  spec): every variable of the pattern of a live entry is mapped to the index of that
  entry, and every key is mapped to a live entry that has the key in its pattern. It
  holds after seeding and after every pass through the main loop, as the last
  subsection shows.
\<close>

definition lookup_consistent :: "'w cegar \<Rightarrow> bool" where
  "lookup_consistent c =
     (list_all
        (\<lambda>i. case solutions c ! i of
                None \<Rightarrow> True
              | Some e \<Rightarrow> list_all (\<lambda>v. map_of (solution_lookup c) v = Some i) (get_pattern e))
        [0..<length (solutions c)]
      \<and> list_all
          (\<lambda>(v, i). case map_of (solution_lookup c) v of
                       None \<Rightarrow> False
                     | Some j \<Rightarrow> in_live_pattern c j v)
          (solution_lookup c))"

lemma lookup_of_live_pattern:
  assumes "lookup_consistent c" and "in_live_pattern c m v"
  shows "map_of (solution_lookup c) v = Some m"
proof -
  from assms(2) obtain e where m: "m < length (solutions c)" and e: "solutions c ! m = Some e"
    and v: "v \<in> set (get_pattern e)"
    by (auto simp: in_live_pattern_def entry_at_def split: option.splits if_splits)
  from assms(1) m have
    "case solutions c ! m of
       None \<Rightarrow> True
     | Some e \<Rightarrow> list_all (\<lambda>v. map_of (solution_lookup c) v = Some m) (get_pattern e)"
    by (simp add: lookup_consistent_def list_all_iff)
  with e v show ?thesis by (simp add: list_all_iff)
qed

lemma live_pattern_of_lookup:
  assumes "lookup_consistent c" and "map_of (solution_lookup c) v = Some m"
  shows "in_live_pattern c m v"
proof -
  from assms(2) have "(v, m) \<in> set (solution_lookup c)" by (rule map_of_SomeD)
  with assms(1) have
    "case map_of (solution_lookup c) v of None \<Rightarrow> False | Some j \<Rightarrow> in_live_pattern c j v"
    by (auto simp: lookup_consistent_def list_all_iff)
  with assms(2) show ?thesis by simp
qed

lemma in_no_live_pattern_iff:
  "in_no_live_pattern c v \<longleftrightarrow> (\<forall>m. \<not> in_live_pattern c m v)"
proof
  assume n: "in_no_live_pattern c v"
  show "\<forall>m. \<not> in_live_pattern c m v"
  proof (intro allI notI)
    fix m assume "in_live_pattern c m v"
    then obtain e where "m < length (solutions c)" "solutions c ! m = Some e"
      "v \<in> set (get_pattern e)"
      by (auto simp: in_live_pattern_def entry_at_def split: option.splits if_splits)
    moreover from this have "Some e \<in> set (solutions c)" by (metis nth_mem)
    ultimately show False using n by (auto simp: in_no_live_pattern_def list_all_iff)
  qed
next
  assume a: "\<forall>m. \<not> in_live_pattern c m v"
  show "in_no_live_pattern c v"
    unfolding in_no_live_pattern_def list_all_iff
  proof
    fix s assume "s \<in> set (solutions c)"
    then obtain m where m: "m < length (solutions c)" "solutions c ! m = s"
      by (auto simp: in_set_conv_nth)
    with a [rule_format, of m] show "case s of None \<Rightarrow> True | Some e \<Rightarrow> v \<notin> set (get_pattern e)"
      by (auto simp: in_live_pattern_def entry_at_def split: option.splits)
  qed
qed

lemma lookup_None_of_no_live_pattern:
  assumes "lookup_consistent c" and "in_no_live_pattern c v"
  shows "map_of (solution_lookup c) v = None"
proof (cases "map_of (solution_lookup c) v")
  case None
  then show ?thesis .
next
  case (Some m)
  with assms(1) have "in_live_pattern c m v" by (simp add: live_pattern_of_lookup)
  with assms(2) show ?thesis by (simp add: in_no_live_pattern_iff)
qed

subsection \<open>The refiner\<close>

lemma can_merge_patterns_world [simp]:
  "can_merge_patterns opts (c\<lparr>world := w\<rparr>) solution1 solution2
     = can_merge_patterns opts c solution1 solution2"
  by (simp add: can_merge_patterns_def)

lemma can_add_variable_to_pattern_world [simp]:
  "can_add_variable_to_pattern opts t (c\<lparr>world := w\<rparr>) solution var
     = can_add_variable_to_pattern opts t c solution var"
  by (simp add: can_add_variable_to_pattern_def)

lemma entry_at_world [simp]: "entry_at (c\<lparr>world := w\<rparr>) i = entry_at c i"
  by (simp add: entry_at_def)

text \<open>
  C2. \<open>refine\<close> on a non-empty flaw list handles the flaw \<open>(k, v)\<close> at the index the
  random number generator returns (any index below the length of the list; that the
  draw is uniform is a property of the generator). Where \<open>solution_lookup\<close> is
  consistent with the live patterns and entry \<open>k\<close> is live: if \<open>v\<close> is in the pattern
  of another live entry \<open>m\<close>, the two entries are merged when \<open>can_merge_patterns\<close>
  holds; if \<open>v\<close> is in no live pattern, entry \<open>k\<close> is extended by \<open>v\<close> when
  \<open>can_add_variable_to_pattern\<close> holds; when the merge or the extension is not
  possible, \<open>v\<close> is added to the blacklist and nothing else changes but the state of
  the generator.
\<close>

theorem refine_performs_one_mutation:
  assumes "lookup_consistent c"
    and "flaws \<noteq> []"
    and "random_below env (world c) (length flaws) = (r, w')"
    and "r < length flaws"
    and "flaws ! r = (k, v)"
    and "entry_at c k = Some solution"
  shows "(\<forall>m solution2.
            m \<noteq> k \<and> entry_at c m = Some solution2 \<and> v \<in> set (get_pattern solution2) \<longrightarrow>
            refine env opts t c flaws =
              Inr (if can_merge_patterns opts c solution solution2
                   then merge_patterns env (c\<lparr>world := w'\<rparr>) k m solution solution2
                   else c\<lparr>world := w', global_blacklist := insert v (global_blacklist c)\<rparr>))
       \<and> (in_no_live_pattern c v \<longrightarrow>
            refine env opts t c flaws =
              Inr (if can_add_variable_to_pattern opts t c solution v
                   then add_variable_to_pattern env (c\<lparr>world := w'\<rparr>) k solution v
                   else c\<lparr>world := w', global_blacklist := insert v (global_blacklist c)\<rparr>))"
proof -
  have r: "refine env opts t c flaws = handle_flaw env opts t (c\<lparr>world := w'\<rparr>) (k, v)"
    using assms(2-5) by (simp add: refine_def)
  have merge: "handle_flaw env opts t (c\<lparr>world := w'\<rparr>) (k, v) =
      Inr (if can_merge_patterns opts c solution solution2
           then merge_patterns env (c\<lparr>world := w'\<rparr>) k m solution solution2
           else c\<lparr>world := w', global_blacklist := insert v (global_blacklist c)\<rparr>)"
    if "m \<noteq> k" "entry_at c m = Some solution2" "v \<in> set (get_pattern solution2)"
    for m solution2
  proof -
    have "in_live_pattern c m v" using that by (simp add: in_live_pattern_def)
    with assms(1) have "map_of (solution_lookup c) v = Some m"
      by (rule lookup_of_live_pattern)
    with that assms(6) show ?thesis by (simp add: handle_flaw_def)
  qed
  have extend: "handle_flaw env opts t (c\<lparr>world := w'\<rparr>) (k, v) =
      Inr (if can_add_variable_to_pattern opts t c solution v
           then add_variable_to_pattern env (c\<lparr>world := w'\<rparr>) k solution v
           else c\<lparr>world := w', global_blacklist := insert v (global_blacklist c)\<rparr>)"
    if "in_no_live_pattern c v"
  proof -
    from assms(1) that have "map_of (solution_lookup c) v = None"
      by (rule lookup_None_of_no_live_pattern)
    with assms(6) show ?thesis by (simp add: handle_flaw_def)
  qed
  show ?thesis using r merge extend by simp
qed

text \<open>
  The collection after seeding the example with the singleton patterns of variables
  \<open>0\<close> and \<open>1\<close>, and the one after seeding it with variable \<open>0\<close> only.
\<close>

definition two_singletons :: "unit cegar" where
  "two_singletons =
     add_pattern_for_var example_env (add_pattern_for_var example_env (Cegar ()) 0) 1"

definition one_singleton :: "unit cegar" where
  "one_singleton = add_pattern_for_var example_env (Cegar ()) 0"

lemma one_singleton_eq:
  "one_singleton =
     \<lparr>remaining_goals = [], global_blacklist = {},
      solutions = [Some (fst (example_solver () [0]))],
      solution_lookup = [(0, 0)], collection_size = 2,
      concrete_solution_index = - 1, world = ()\<rparr>"
  by (simp add: one_singleton_def add_pattern_for_var_def AbstractSolutionData_def
        example_env_def example_solver_def Cegar_def)

lemma two_singletons_eq:
  "two_singletons =
     \<lparr>remaining_goals = [], global_blacklist = {},
      solutions = [Some (fst (example_solver () [0])), Some (fst (example_solver () [1]))],
      solution_lookup = [(0, 0), (1, 1)], collection_size = 4,
      concrete_solution_index = - 1, world = ()\<rparr>"
  by (simp add: two_singletons_def add_pattern_for_var_def AbstractSolutionData_def
        example_env_def example_solver_def Cegar_def)

lemma lookup_consistent_two_singletons: "lookup_consistent two_singletons"
  by (simp add: two_singletons_eq lookup_consistent_def in_live_pattern_def entry_at_def
        example_solver_def)

lemma lookup_consistent_one_singleton: "lookup_consistent one_singleton"
  by (simp add: one_singleton_eq lookup_consistent_def in_live_pattern_def entry_at_def
        example_solver_def)

theorem refine_performs_one_mutation_witness:
  "lookup_consistent two_singletons
   \<and> entry_at two_singletons 1 = Some (fst (example_solver () [1]))
   \<and> refine example_env example_options example_task two_singletons [(0, 1)] =
       Inr (two_singletons
              \<lparr>solutions := [Some (fst (example_solver () [0, 1])), None],
               solution_lookup := [(0, 0), (1, 0)]\<rparr>)
   \<and> refine example_env (example_options\<lparr>max_pdb_size := 3\<rparr>) example_task two_singletons
         [(0, 1)] =
       Inr (two_singletons\<lparr>global_blacklist := {1}\<rparr>)
   \<and> lookup_consistent one_singleton
   \<and> in_no_live_pattern one_singleton 1
   \<and> refine example_env example_options example_task one_singleton [(0, 1)] =
       Inr (one_singleton
              \<lparr>solutions := [Some (fst (example_solver () [0, 1]))],
               solution_lookup := [(0, 0), (1, 0)],
               collection_size := 4\<rparr>)
   \<and> refine example_env (example_options\<lparr>max_pdb_size := 3\<rparr>) example_task one_singleton
         [(0, 1)] =
       Inr (one_singleton\<lparr>global_blacklist := {1}\<rparr>)"
proof -
  let ?e0 = "fst (example_solver () [0])" and ?e1 = "fst (example_solver () [1])"
  let ?tiny = "example_options\<lparr>max_pdb_size := 3\<rparr>"
  have f: "[(0::nat, 1::int)] \<noteq> []" "(0::nat) < length [(0::nat, 1::int)]"
    "[(0::nat, 1::int)] ! 0 = (0, 1)"
    by simp_all
  have r2: "random_below example_env (world two_singletons) (length [(0::nat, 1::int)]) = (0, ())"
    and r1: "random_below example_env (world one_singleton) (length [(0::nat, 1::int)]) = (0, ())"
    by (simp_all add: example_env_def)
  have k2: "entry_at two_singletons 0 = Some ?e0" and m2: "entry_at two_singletons 1 = Some ?e1"
    and k1: "entry_at one_singleton 0 = Some ?e0"
    by (simp_all add: two_singletons_eq one_singleton_eq entry_at_def)
  have n1: "in_no_live_pattern one_singleton 1"
    by (simp add: one_singleton_eq in_no_live_pattern_def example_solver_def)
  have v: "(1::int) \<in> set (get_pattern ?e1)"
    by (simp add: example_solver_def)
  note merge = refine_performs_one_mutation
    [OF lookup_consistent_two_singletons f(1) r2 f(2) f(3) k2, THEN conjunct1, rule_format,
     of 1 ?e1]
  note extend = refine_performs_one_mutation
    [OF lookup_consistent_one_singleton f(1) r1 f(2) f(3) k1, THEN conjunct2, rule_format,
     OF n1]
  have c1: "refine example_env example_options example_task two_singletons [(0, 1)] =
       Inr (two_singletons
              \<lparr>solutions := [Some (fst (example_solver () [0, 1])), None],
               solution_lookup := [(0, 0), (1, 0)]\<rparr>)"
    using merge [of example_options example_task] m2 v
    by (simp add: can_merge_patterns_def is_product_within_limit_def merge_patterns_def
          AbstractSolutionData_def example_options_def example_env_def example_solver_def
          two_singletons_eq)
  have c2: "refine example_env ?tiny example_task two_singletons [(0, 1)] =
       Inr (two_singletons\<lparr>global_blacklist := {1}\<rparr>)"
    using merge [of ?tiny example_task] m2 v
    by (simp add: can_merge_patterns_def is_product_within_limit_def
          example_options_def example_solver_def two_singletons_eq)
  have c3: "refine example_env example_options example_task one_singleton [(0, 1)] =
       Inr (one_singleton
              \<lparr>solutions := [Some (fst (example_solver () [0, 1]))],
               solution_lookup := [(0, 0), (1, 0)],
               collection_size := 4\<rparr>)"
    using extend [of example_options example_task]
    by (simp add: can_add_variable_to_pattern_def is_product_within_limit_def
          add_variable_to_pattern_def update_goals_def
          AbstractSolutionData_def example_options_def example_env_def example_solver_def
          example_task_def one_singleton_eq)
  have c4: "refine example_env ?tiny example_task one_singleton [(0, 1)] =
       Inr (one_singleton\<lparr>global_blacklist := {1}\<rparr>)"
    using extend [of ?tiny example_task]
    by (simp add: can_add_variable_to_pattern_def is_product_within_limit_def
          example_options_def example_solver_def example_task_def one_singleton_eq)
  show ?thesis
    using lookup_consistent_two_singletons lookup_consistent_one_singleton m2 n1 c1 c2 c3 c4
    by simp
qed

lemma global_blacklist_merge_patterns [simp]:
  "global_blacklist (merge_patterns env c index1 index2 solution1 solution2)
     = global_blacklist c"
  by (simp add: merge_patterns_def Let_def split: prod.splits)

lemma global_blacklist_add_variable_to_pattern [simp]:
  "global_blacklist (add_variable_to_pattern env c index solution var) = global_blacklist c"
  by (simp add: add_variable_to_pattern_def update_goals_def Let_def split: prod.splits)

text \<open>
  C5, as amended. Where \<open>solution_lookup\<close> is consistent with the live patterns: when
  \<open>handle_flaw\<close> on the flaw \<open>(k, v)\<close> puts \<open>v\<close> newly on the blacklist, nothing else
  changes and \<open>v\<close> is not in the pattern of entry \<open>k\<close>. Either \<open>v\<close> is in no live
  pattern and entry \<open>k\<close> cannot be extended by it, or \<open>v\<close> is in the pattern of another
  live entry \<open>m\<close> that cannot be merged with entry \<open>k\<close>: in that case \<open>v\<close> is
  blacklisted while it is in a live pattern.
\<close>

theorem blacklisted_variable_not_in_flawed_pattern:
  assumes "lookup_consistent c"
    and "handle_flaw env opts t c (k, v) = Inr c'"
    and "global_blacklist c' \<noteq> global_blacklist c"
  shows "c' = c\<lparr>global_blacklist := insert v (global_blacklist c)\<rparr>
       \<and> \<not> in_live_pattern c k v
       \<and> (case map_of (solution_lookup c) v of
             None \<Rightarrow>
               in_no_live_pattern c v
               \<and> (\<exists>solution. entry_at c k = Some solution
                     \<and> \<not> can_add_variable_to_pattern opts t c solution v)
           | Some m \<Rightarrow>
               m \<noteq> k \<and> in_live_pattern c m v
               \<and> (\<exists>solution1 solution2.
                     entry_at c k = Some solution1 \<and> entry_at c m = Some solution2
                     \<and> \<not> can_merge_patterns opts c solution1 solution2))"
proof (cases "map_of (solution_lookup c) v")
  case None
  have no: "in_no_live_pattern c v"
    unfolding in_no_live_pattern_iff
  proof (intro allI notI)
    fix m assume "in_live_pattern c m v"
    with assms(1) have "map_of (solution_lookup c) v = Some m"
      by (rule lookup_of_live_pattern)
    with None show False by simp
  qed
  from assms(2) None obtain solution where s: "entry_at c k = Some solution"
    by (auto simp: handle_flaw_def split: option.splits)
  have cannot: "\<not> can_add_variable_to_pattern opts t c solution v"
  proof
    assume "can_add_variable_to_pattern opts t c solution v"
    with assms(2) None s have "c' = add_variable_to_pattern env c k solution v"
      by (simp add: handle_flaw_def)
    with assms(3) show False by simp
  qed
  with assms(2) None s have "c' = c\<lparr>global_blacklist := insert v (global_blacklist c)\<rparr>"
    by (simp add: handle_flaw_def)
  moreover have "\<not> in_live_pattern c k v"
    using no by (simp add: in_no_live_pattern_iff)
  ultimately show ?thesis using None no s cannot by simp
next
  case (Some m)
  from assms(2) Some have mk: "m \<noteq> k"
    by (auto simp: handle_flaw_def split: if_splits)
  from assms(2) Some mk obtain solution1 solution2
    where s: "entry_at c k = Some solution1" "entry_at c m = Some solution2"
    by (auto simp: handle_flaw_def split: option.splits)
  have live: "in_live_pattern c m v"
    using assms(1) Some by (rule live_pattern_of_lookup)
  have cannot: "\<not> can_merge_patterns opts c solution1 solution2"
  proof
    assume "can_merge_patterns opts c solution1 solution2"
    with assms(2) Some mk s have "c' = merge_patterns env c k m solution1 solution2"
      by (simp add: handle_flaw_def)
    with assms(3) show False by simp
  qed
  with assms(2) Some mk s have "c' = c\<lparr>global_blacklist := insert v (global_blacklist c)\<rparr>"
    by (simp add: handle_flaw_def)
  moreover have "\<not> in_live_pattern c k v"
  proof
    assume "in_live_pattern c k v"
    with assms(1) have "map_of (solution_lookup c) v = Some k"
      by (rule lookup_of_live_pattern)
    with Some mk show False by simp
  qed
  ultimately show ?thesis using Some mk live s cannot by simp
qed

text \<open>
  The example with the two goals, seeded with both singleton patterns, and PDBs
  limited to three entries: projecting the plan of entry \<open>0\<close> gives the flaw
  \<open>(0, 1)\<close>, the two entries cannot be merged, and variable \<open>1\<close> is blacklisted while
  it is the pattern of the live entry \<open>1\<close>.
\<close>

theorem blacklisted_variable_counterexample:
  "lookup_consistent two_singletons
   \<and> get_flaws (example_options\<lparr>max_pdb_size := 3\<rparr>) two_goals_task two_singletons
       = Inr ([(0, 1)], two_singletons)
   \<and> handle_flaw example_env (example_options\<lparr>max_pdb_size := 3\<rparr>) two_goals_task
        two_singletons (0, 1)
       = Inr (two_singletons\<lparr>global_blacklist := {1}\<rparr>)
   \<and> global_blacklist two_singletons = {}
   \<and> in_live_pattern two_singletons 1 1"
proof -
  have "get_flaws (example_options\<lparr>max_pdb_size := 3\<rparr>) two_goals_task two_singletons
       = Inr ([(0, 1)], two_singletons)"
    by (simp add: get_flaws_def get_flaws_loop.simps two_singletons_eq example_solver_def
          apply_wildcard_plan_def two_goals_task_def example_task_def is_goal_state_def
          example_options_def)
  moreover have "handle_flaw example_env (example_options\<lparr>max_pdb_size := 3\<rparr>) two_goals_task
        two_singletons (0, 1)
       = Inr (two_singletons\<lparr>global_blacklist := {1}\<rparr>)"
    by (simp add: handle_flaw_def two_singletons_eq entry_at_def example_solver_def
          can_merge_patterns_def is_product_within_limit_def example_options_def)
  moreover have "global_blacklist two_singletons = {}"
    "in_live_pattern two_singletons 1 1"
    by (simp_all add: two_singletons_eq in_live_pattern_def entry_at_def example_solver_def)
  ultimately show ?thesis using lookup_consistent_two_singletons by simp
qed

theorem blacklisted_variable_not_in_flawed_pattern_witness:
  "lookup_consistent two_singletons
   \<and> handle_flaw example_env (example_options\<lparr>max_pdb_size := 3\<rparr>) example_task
        two_singletons (0, 1)
       = Inr (two_singletons\<lparr>global_blacklist := {1}\<rparr>)
   \<and> global_blacklist (two_singletons\<lparr>global_blacklist := {1}\<rparr>)
       \<noteq> global_blacklist two_singletons
   \<and> \<not> in_live_pattern two_singletons 0 1
   \<and> map_of (solution_lookup two_singletons) 1 = Some 1
   \<and> in_live_pattern two_singletons 1 1"
proof -
  let ?tiny = "example_options\<lparr>max_pdb_size := 3\<rparr>"
  have h: "handle_flaw example_env ?tiny example_task two_singletons (0, 1)
       = Inr (two_singletons\<lparr>global_blacklist := {1}\<rparr>)"
    by (simp add: handle_flaw_def two_singletons_eq entry_at_def example_solver_def
          can_merge_patterns_def is_product_within_limit_def example_options_def)
  have n: "global_blacklist (two_singletons\<lparr>global_blacklist := {1}\<rparr>)
             \<noteq> global_blacklist two_singletons"
    by (simp add: two_singletons_eq)
  have l: "map_of (solution_lookup two_singletons) 1 = Some 1"
    by (simp add: two_singletons_eq)
  show ?thesis
    using blacklisted_variable_not_in_flawed_pattern
      [OF lookup_consistent_two_singletons h n] lookup_consistent_two_singletons h n l
    by simp
qed

subsection \<open>Flaw extraction over the collection\<close>



lemma apply_wildcard_plan_frame:
  "global_blacklist (snd (apply_wildcard_plan opts t c k solution init)) = global_blacklist c"
  "remaining_goals (snd (apply_wildcard_plan opts t c k solution init)) = remaining_goals c"
  "n \<noteq> k \<Longrightarrow> solutions (snd (apply_wildcard_plan opts t c k solution init)) ! n
             = solutions c ! n"
  by (simp_all add: apply_wildcard_plan_def mark_as_solved_def split: prod.splits)








text \<open>
  The driver calls \<open>get_flaws\<close> with \<open>concrete_solution_index = -1\<close> only: the index
  is \<open>-1\<close> in a new object, seeding and refinement leave it alone, and \<open>get_flaws\<close>
  sets it only when it returns the empty flaw list, after which the loop is left.
\<close>

lemma concrete_solution_index_add_pattern_for_var [simp]:
  "concrete_solution_index (add_pattern_for_var env c var) = concrete_solution_index c"
  by (simp add: add_pattern_for_var_def split: prod.splits)

lemma concrete_solution_index_all_goals_loop:
  "concrete_solution_index (all_goals_loop env c) = concrete_solution_index c"
proof (induction "length (remaining_goals c)" arbitrary: c)
  case 0
  then show ?case by (subst all_goals_loop.simps) simp
next
  case (Suc n)
  then have ne: "remaining_goals c \<noteq> []" by auto
  let ?c1 = "add_pattern_for_var env (c\<lparr>remaining_goals := butlast (remaining_goals c)\<rparr>)
               (last (remaining_goals c))"
  have "n = length (remaining_goals ?c1)" using Suc.hyps(2) by simp
  then have "concrete_solution_index (all_goals_loop env ?c1) = concrete_solution_index ?c1"
    by (rule Suc.hyps(1))
  with ne show ?case by (subst all_goals_loop.simps) (simp add: Let_def)
qed

lemma concrete_solution_index_generate_trivial_solution_collection:
  assumes "generate_trivial_solution_collection env opts c0 = Inr c"
  shows "concrete_solution_index c = concrete_solution_index c0"
  using assms
  by (auto simp: generate_trivial_solution_collection_def update_goals_def Let_def
        concrete_solution_index_all_goals_loop
        split: if_splits InitialCollectionType.splits)

lemma concrete_solution_index_handle_flaw:
  assumes "handle_flaw env opts t c flaw = Inr c'"
  shows "concrete_solution_index c' = concrete_solution_index c"
  using assms
  by (auto simp: handle_flaw_def merge_patterns_def add_variable_to_pattern_def
        update_goals_def Let_def split: option.splits if_splits prod.splits)

lemma concrete_solution_index_refine:
  assumes "refine env opts t c flaws = Inr c'"
  shows "concrete_solution_index c' = concrete_solution_index c"
proof -
  obtain r w' where r: "random_below env (world c) (length flaws) = (r, w')"
    by (cases "random_below env (world c) (length flaws)")
  with assms have "handle_flaw env opts t (c\<lparr>world := w'\<rparr>) (flaws ! r) = Inr c'"
    by (auto simp: refine_def split: if_splits)
  then have "concrete_solution_index c' = concrete_solution_index (c\<lparr>world := w'\<rparr>)"
    by (rule concrete_solution_index_handle_flaw)
  then show ?thesis by simp
qed

lemma concrete_solution_index_get_flaws_loop:
  assumes "concrete_solution_index c = - 1"
    and "get_flaws_loop opts t init (flaws, c) j = Inr (flaws', c')"
  shows "flaws' = [] \<or> concrete_solution_index c' = - 1"
  using assms
proof (induction "length (solutions c) - j" arbitrary: j flaws c)
  case 0
  then have "\<not> j < length (solutions c)" by simp
  with 0 show ?case by (subst (asm) get_flaws_loop.simps) simp
next
  case (Suc d)
  then have d: "d = length (solutions c) - Suc j" and jlen: "j < length (solutions c)"
    by simp_all
  note loop = Suc.prems(2) [unfolded get_flaws_loop.simps [of _ _ _ flaws c j]]
  show ?case
  proof (cases "solutions c ! j")
    case None
    with loop jlen have "get_flaws_loop opts t init (flaws, c) (Suc j) = Inr (flaws', c')"
      by simp
    from Suc.hyps(1) [OF d Suc.prems(1) this] show ?thesis .
  next
    case (Some e)
    show ?thesis
    proof (cases "is_solved e")
      case True
      with Some loop jlen have "get_flaws_loop opts t init (flaws, c) (Suc j) = Inr (flaws', c')"
        by simp
      from Suc.hyps(1) [OF d Suc.prems(1) this] show ?thesis .
    next
      case unsolved: False
      obtain new_flaws c1 where a: "apply_wildcard_plan opts t c j e init = (new_flaws, c1)"
        by (cases "apply_wildcard_plan opts t c j e init")
      then have c1: "c1 = snd (apply_wildcard_plan opts t c j e init)" by simp
      have len: "length (solutions c1) = length (solutions c)"
        by (simp add: c1 length_solutions_apply_wildcard_plan)
      show ?thesis
      proof (cases "solution_exists e \<and> concrete_solution_index c1 = - 1")
        case True
        with Some unsolved loop jlen a have
          "get_flaws_loop opts t init (flaws @ new_flaws, c1) (Suc j) = Inr (flaws', c')"
          by simp
        moreover have "d = length (solutions c1) - Suc j" using d len by simp
        ultimately show ?thesis using Suc.hyps(1) True by blast
      next
        case False
        with Some unsolved loop jlen a have "flaws' = []" by (auto split: if_splits)
        then show ?thesis by simp
      qed
    qed
  qed
qed

lemma concrete_solution_index_main_loop_body:
  assumes "concrete_solution_index c = - 1"
    and "main_loop_body env opts t c n = Inr (c', True)"
  shows "concrete_solution_index c' = - 1"
proof -
  obtain met c1 where m: "termination_conditions_met env opts c n = (met, c1)"
    by (cases "termination_conditions_met env opts c n")
  then have "concrete_solution_index c1 = concrete_solution_index c"
    by (auto simp: termination_conditions_met_def time_limit_reached_def
          split: prod.splits if_splits)
  with assms(1) have c1: "concrete_solution_index c1 = - 1" by simp
  from assms(2) m have nm: "\<not> met" by (auto simp: main_loop_body_def)
  with assms(2) m obtain flaws c2 where g: "get_flaws opts t c1 = Inr (flaws, c2)"
    by (cases "get_flaws opts t c1") (auto simp: main_loop_body_def)
  from assms(2) m nm g have ne: "flaws \<noteq> []"
    by (auto simp: main_loop_body_def split: if_splits)
  from c1 g have "flaws = [] \<or> concrete_solution_index c2 = - 1"
    unfolding get_flaws_def by (rule concrete_solution_index_get_flaws_loop)
  with ne have c2: "concrete_solution_index c2 = - 1" by simp
  obtain reached c3 where r: "time_limit_reached env c2 = (reached, c3)"
    by (cases "time_limit_reached env c2")
  then have "concrete_solution_index c3 = concrete_solution_index c2"
    by (auto simp: time_limit_reached_def split: prod.splits)
  with c2 have c3: "concrete_solution_index c3 = - 1" by simp
  from assms(2) m nm g ne r have "refine env opts t c3 flaws = Inr c'"
    by (auto simp: main_loop_body_def split: if_splits sum.splits)
  then have "concrete_solution_index c' = concrete_solution_index c3"
    by (rule concrete_solution_index_refine)
  with c3 show ?thesis by simp
qed

lemma concrete_solution_index_iterations:
  assumes "concrete_solution_index c = - 1"
    and "iterations env opts t n c counter = Inr (c', True)"
  shows "concrete_solution_index c' = - 1"
  using assms
proof (induction n arbitrary: c counter)
  case 0
  then show ?case by simp
next
  case (Suc n)
  from Suc.prems(2) obtain c1 go1 where b: "main_loop_body env opts t c counter = Inr (c1, go1)"
    by (cases "main_loop_body env opts t c counter") auto
  with Suc.prems(2) have go1: "go1" by (cases go1) auto
  with b Suc.prems(1) have c1: "concrete_solution_index c1 = - 1"
    by (simp add: concrete_solution_index_main_loop_body)
  from Suc.prems(2) b go1 have "iterations env opts t n c1 (counter + 1) = Inr (c', True)"
    by simp
  with c1 show ?case by (rule Suc.IH)
qed

lemma concrete_solution_index_run:
  assumes "concrete_solution_index c0 = - 1"
    and "generate_trivial_solution_collection env opts c0 = Inr c"
    and "iterations env opts t n c counter = Inr (c', True)"
  shows "concrete_solution_index (snd (termination_conditions_met env opts c' counter')) = - 1"
proof -
  have "concrete_solution_index c = - 1"
    using assms(1,2) by (simp add: concrete_solution_index_generate_trivial_solution_collection)
  then have "concrete_solution_index c' = - 1"
    using assms(3) by (rule concrete_solution_index_iterations)
  then show ?thesis
    by (auto simp: termination_conditions_met_def time_limit_reached_def
          split: prod.splits if_splits)
qed

subsection \<open>Input errors\<close>

lemma get_flaws_loop_no_input_error:
  "get_flaws_loop opts t init (flaws, c) j \<noteq> Inl SEARCH_INPUT_ERROR"
proof (induction "length (solutions c) - j" arbitrary: j flaws c)
  case 0
  then show ?case by (subst get_flaws_loop.simps) simp
next
  case (Suc d)
  then have d: "d = length (solutions c) - Suc j" by simp
  have same: "get_flaws_loop opts t init (flaws', c) (Suc j) \<noteq> Inl SEARCH_INPUT_ERROR"
    for flaws'
    using Suc.hyps(1) [OF d] .
  have next': "get_flaws_loop opts t init (flaws', c') (Suc j) \<noteq> Inl SEARCH_INPUT_ERROR"
    if "apply_wildcard_plan opts t c j e init = (new_flaws, c')" for flaws' c' e new_flaws
  proof -
    have "c' = snd (apply_wildcard_plan opts t c j e init)" using that by simp
    then have "length (solutions c') = length (solutions c)"
      by (simp add: length_solutions_apply_wildcard_plan)
    with d have "d = length (solutions c') - Suc j" by simp
    then show ?thesis by (rule Suc.hyps(1))
  qed
  show ?case
  proof (cases "solutions c ! j")
    case None
    with same show ?thesis by (subst get_flaws_loop.simps) simp
  next
    case (Some e)
    obtain new_flaws c' where a: "apply_wildcard_plan opts t c j e init = (new_flaws, c')"
      by (cases "apply_wildcard_plan opts t c j e init")
    from Some a same next' [OF a] show ?thesis
      by (subst get_flaws_loop.simps) simp
  qed
qed

lemma get_flaws_no_input_error: "get_flaws opts t c \<noteq> Inl SEARCH_INPUT_ERROR"
  unfolding get_flaws_def by (rule get_flaws_loop_no_input_error)

lemma handle_flaw_no_input_error: "handle_flaw env opts t c flaw \<noteq> Inl SEARCH_INPUT_ERROR"
  by (simp add: handle_flaw_def Let_def split: option.splits)

lemma refine_no_input_error: "refine env opts t c flaws \<noteq> Inl SEARCH_INPUT_ERROR"
  by (simp add: refine_def handle_flaw_no_input_error split: prod.splits)

lemma main_loop_body_no_input_error:
  "main_loop_body env opts t c n \<noteq> Inl SEARCH_INPUT_ERROR"
proof -
  obtain met c1 where m: "termination_conditions_met env opts c n = (met, c1)"
    by (cases "termination_conditions_met env opts c n")
  show ?thesis
  proof (cases "get_flaws opts t c1")
    case (Inl f)
    with get_flaws_no_input_error [of opts t c1] have "f \<noteq> SEARCH_INPUT_ERROR" by auto
    with Inl m show ?thesis by (simp add: main_loop_body_def)
  next
    case (Inr p)
    obtain flaws c2 where p: "p = (flaws, c2)" by (cases p)
    obtain reached c3 where r: "time_limit_reached env c2 = (reached, c3)"
      by (cases "time_limit_reached env c2")
    show ?thesis
    proof (cases "refine env opts t c3 flaws")
      case (Inl f)
      with refine_no_input_error [of env opts t c3 flaws] have "f \<noteq> SEARCH_INPUT_ERROR"
        by auto
      with Inl Inr p r m show ?thesis by (simp add: main_loop_body_def)
    next
      case (Inr c4)
      with \<open>get_flaws opts t c1 = Inr p\<close> p r m show ?thesis
        by (simp add: main_loop_body_def)
    qed
  qed
qed

lemma main_loop_no_input_error:
  assumes "main_loop env opts t c n = Some r"
  shows "r \<noteq> Inl SEARCH_INPUT_ERROR"
proof (rule main_loop.raw_induct
         [where P = "\<lambda>env opts t c n r. r \<noteq> Inl SEARCH_INPUT_ERROR", OF _ assms])
  fix loop :: "'a environment \<Rightarrow> options \<Rightarrow> task \<Rightarrow> 'a cegar \<Rightarrow> cint
                 \<Rightarrow> (failure + 'a cegar) option"
    and env opts t c n r
  assume IH: "\<And>env opts t c n r. loop env opts t c n = Some r \<Longrightarrow> r \<noteq> Inl SEARCH_INPUT_ERROR"
    and body: "(case main_loop_body env opts t c n of
                  Inl f \<Rightarrow> Some (Inl f)
                | Inr (c', go_on) \<Rightarrow>
                    if go_on then loop env opts t c' (n + 1) else Some (Inr c')) = Some r"
  show "r \<noteq> Inl SEARCH_INPUT_ERROR"
  proof (cases "main_loop_body env opts t c n")
    case (Inl f)
    with body main_loop_body_no_input_error [of env opts t c n] show ?thesis by auto
  next
    case (Inr p)
    obtain c' go_on where p: "p = (c', go_on)" by (cases p)
    show ?thesis
    proof (cases go_on)
      case True
      with body Inr p have "loop env opts t c' (n + 1) = Some r" by simp
      then show ?thesis by (rule IH)
    next
      case False
      with body Inr p show ?thesis by auto
    qed
  qed
qed

lemma generate_trivial_solution_collection_no_input_error:
  "generate_trivial_solution_collection env opts c \<noteq> Inl SEARCH_INPUT_ERROR"
  by (simp add: generate_trivial_solution_collection_def Let_def
        split: InitialCollectionType.splits)

lemma collect_output_no_input_error: "collect_output c \<noteq> Inl SEARCH_INPUT_ERROR"
  by (simp add: collect_output_def split: option.splits)

text \<open>
  C7, as amended. \<open>generate\<close> ends with exit code \<open>SEARCH_INPUT_ERROR\<close> if and only if
  \<open>given_goal\<close> is not \<open>-1\<close> and is either not below the number of variables or
  not the variable of a goal fact. The check does not look at \<open>initial\<close>: a bad
  \<open>given_goal\<close> is an input error with \<open>RANDOM_GOAL\<close> and \<open>ALL_GOALS\<close> as well. The
  statement leaves out \<open>initial = GIVEN_GOAL\<close> with \<open>given_goal = -1\<close>, which the check
  lets pass and the seeding asserts not to happen.
\<close>

theorem generate_input_error:
  assumes "\<not> (initial opts = GIVEN_GOAL \<and> given_goal opts = - 1)"
  shows "generate env opts t c = Some (Inl SEARCH_INPUT_ERROR) \<longleftrightarrow>
           given_goal opts \<noteq> - 1
           \<and> (given_goal opts \<ge> int (num_variables t)
                \<or> given_goal opts \<notin> fst ` set (get_goals t))"
proof (cases "given_goal opts \<noteq> - 1
           \<and> (given_goal opts \<ge> int (num_variables t)
                \<or> given_goal opts \<notin> fst ` set (get_goals t))")
  case True
  then show ?thesis by (auto simp: generate_def)
next
  case False
  let ?c1 = "c\<lparr>remaining_goals := remaining_goals c @ map fst (get_goals t)\<rparr>"
  obtain shuffled w' where s: "shuffle env (world ?c1) (remaining_goals ?c1) = (shuffled, w')"
    by (cases "shuffle env (world ?c1) (remaining_goals ?c1)")
  let ?c3 = "select_blacklist env opts t (?c1\<lparr>remaining_goals := shuffled, world := w'\<rparr>)"
  have g: "generate env opts t c =
             (case generate_trivial_solution_collection env opts ?c3 of
                Inl f \<Rightarrow> Some (Inl f)
              | Inr c4 \<Rightarrow>
                  (case main_loop env opts t c4 0 of
                     None \<Rightarrow> None
                   | Some (Inl f) \<Rightarrow> Some (Inl f)
                   | Some (Inr c5) \<Rightarrow> Some (collect_output c5)))"
    using False s by (auto simp: generate_def Let_def)
  have "generate env opts t c \<noteq> Some (Inl SEARCH_INPUT_ERROR)"
  proof (cases "generate_trivial_solution_collection env opts ?c3")
    case (Inl f)
    with generate_trivial_solution_collection_no_input_error [of env opts ?c3]
    show ?thesis unfolding g by auto
  next
    case (Inr c4)
    show ?thesis
    proof (cases "main_loop env opts t c4 0")
      case None
      with Inr show ?thesis unfolding g by simp
    next
      case (Some r)
      then have "r \<noteq> Inl SEARCH_INPUT_ERROR" by (rule main_loop_no_input_error)
      with Inr Some collect_output_no_input_error show ?thesis
        unfolding g by (cases r) auto
    qed
  qed
  with False show ?thesis by simp
qed

text \<open>
  The claim as it was: with \<open>initial = ALL_GOALS\<close> and a \<open>given_goal\<close> that is no
  variable of the example task, \<open>generate\<close> ends with the input error.
\<close>

theorem generate_input_error_counterexample:
  "initial (example_options\<lparr>given_goal := 5\<rparr>) = ALL_GOALS
   \<and> generate example_env (example_options\<lparr>given_goal := 5\<rparr>) example_task (Cegar ())
       = Some (Inl SEARCH_INPUT_ERROR)"
  by (simp add: generate_def example_options_def example_task_def)

theorem generate_input_error_witness:
  "generate example_env (example_options\<lparr>initial := RANDOM_GOAL, given_goal := 1\<rparr>)
     example_task (Cegar ())
     = Some (Inl SEARCH_INPUT_ERROR)
   \<and> generate example_env (example_options\<lparr>initial := GIVEN_GOAL, given_goal := 0\<rparr>)
       example_task (Cegar ())
       \<noteq> Some (Inl SEARCH_INPUT_ERROR)"
proof -
  have a: "\<not> (initial (example_options\<lparr>initial := RANDOM_GOAL, given_goal := 1\<rparr>) = GIVEN_GOAL
             \<and> given_goal (example_options\<lparr>initial := RANDOM_GOAL, given_goal := 1\<rparr>) = - 1)"
    and b: "\<not> (initial (example_options\<lparr>initial := GIVEN_GOAL, given_goal := 0\<rparr>) = GIVEN_GOAL
             \<and> given_goal (example_options\<lparr>initial := GIVEN_GOAL, given_goal := 0\<rparr>) = - 1)"
    by simp_all
  show ?thesis
    using generate_input_error [OF a, of example_env example_task "Cegar ()"]
      generate_input_error [OF b, of example_env example_task "Cegar ()"]
    by (simp add: example_task_def)
qed

subsection \<open>Seeding with all goals\<close>

lemma remaining_goals_all_goals_loop: "remaining_goals (all_goals_loop env c) = []"
proof (induction "length (remaining_goals c)" arbitrary: c)
  case 0
  then show ?case by (subst all_goals_loop.simps) simp
next
  case (Suc n)
  then have ne: "remaining_goals c \<noteq> []" by auto
  let ?c1 = "add_pattern_for_var env (c\<lparr>remaining_goals := butlast (remaining_goals c)\<rparr>)
               (last (remaining_goals c))"
  have "n = length (remaining_goals ?c1)" using Suc.hyps(2) by simp
  then have "remaining_goals (all_goals_loop env ?c1) = []" by (rule Suc.hyps(1))
  with ne show ?case by (subst all_goals_loop.simps) (simp add: Let_def)
qed

text \<open>No refinement adds a variable to \<open>remaining_goals\<close>.\<close>

lemma remaining_goals_merge_patterns [simp]:
  "remaining_goals (merge_patterns env c index1 index2 solution1 solution2) = remaining_goals c"
  by (simp add: merge_patterns_def Let_def split: prod.splits)

lemma remaining_goals_add_variable_to_pattern [simp]:
  "remaining_goals (add_variable_to_pattern env c index solution var)
     = remove1 var (remaining_goals c)"
  by (simp add: add_variable_to_pattern_def update_goals_def Let_def split: prod.splits)

lemma remaining_goals_handle_flaw:
  assumes "handle_flaw env opts t c flaw = Inr c'"
  shows "set (remaining_goals c') \<subseteq> set (remaining_goals c)"
proof (cases "map_of (solution_lookup c) (snd flaw)")
  case None
  with assms show ?thesis
    using set_remove1_subset [of "snd flaw" "remaining_goals c"]
    by (auto simp: handle_flaw_def Let_def split: option.splits if_splits)
next
  case (Some m)
  with assms show ?thesis
    by (auto simp: handle_flaw_def Let_def split: option.splits if_splits)
qed

lemma remaining_goals_refine:
  assumes "refine env opts t c flaws = Inr c'"
  shows "set (remaining_goals c') \<subseteq> set (remaining_goals c)"
proof -
  obtain r w' where r: "random_below env (world c) (length flaws) = (r, w')"
    by (cases "random_below env (world c) (length flaws)")
  with assms have "handle_flaw env opts t (c\<lparr>world := w'\<rparr>) (flaws ! r) = Inr c'"
    by (auto simp: refine_def split: if_splits)
  then have "set (remaining_goals c') \<subseteq> set (remaining_goals (c\<lparr>world := w'\<rparr>))"
    by (rule remaining_goals_handle_flaw)
  then show ?thesis by simp
qed

lemma remaining_goals_time_limit_reached [simp]:
  "remaining_goals (snd (time_limit_reached env c)) = remaining_goals c"
  by (simp add: time_limit_reached_def split: prod.splits)

lemma remaining_goals_termination_conditions_met [simp]:
  "remaining_goals (snd (termination_conditions_met env opts c n)) = remaining_goals c"
proof -
  have "snd (termination_conditions_met env opts c n) = snd (time_limit_reached env c)"
    by (simp add: termination_conditions_met_def split: prod.splits)
  then show ?thesis by simp
qed

subsection \<open>Precondition flaws\<close>

text \<open>
  The flaws that the projection of the plan of entry \<open>e\<close> at index \<open>k\<close> leaves: the
  violated preconditions of the step at which the plan fails. A flaw is a precondition
  flaw of the collection if it is among those of the live entry it names.
\<close>

definition precondition_flaws ::
  "task \<Rightarrow> int set \<Rightarrow> nat \<Rightarrow> abstract_solution_data \<Rightarrow> flaw list" where
  "precondition_flaws t blacklist k e =
     fst (execute_plan t blacklist e k (get_plan e) ([], get_initial_state t))"

definition is_precondition_flaw :: "task \<Rightarrow> 'w cegar \<Rightarrow> flaw \<Rightarrow> bool" where
  "is_precondition_flaw t c flaw =
     (case entry_at c (fst flaw) of
        None \<Rightarrow> False
      | Some e \<Rightarrow> flaw \<in> set (precondition_flaws t (global_blacklist c) (fst flaw) e))"

lemma execute_plan_flaws_index:
  "set (fst (execute_plan t blacklist e k plan (flaws, current)))
     \<subseteq> set flaws \<union> {k} \<times> UNIV"
proof (induction plan arbitrary: flaws current)
  case Nil
  show ?case by simp
next
  case (Cons equivalent_ops plan)
  show ?case
  proof (cases "find (\<lambda>a. violated_vars t blacklist e current a = []) equivalent_ops")
    case None
    then show ?thesis by (auto simp: try_equivalent_ops_eq)
  next
    case (Some a)
    have "set (fst (execute_plan t blacklist e k plan
                 ([], get_unregistered_successor t current
                        (get_concrete_op_id_for_abs_op_id e a))))
            \<subseteq> {k} \<times> UNIV"
      using Cons.IH [of "[]"] by simp
    with Some show ?thesis by (auto simp: try_equivalent_ops_eq)
  qed
qed

lemma precondition_flaws_index: "flaw \<in> set (precondition_flaws t blacklist k e) \<Longrightarrow> fst flaw = k"
  using execute_plan_flaws_index [of t blacklist e k "get_plan e" "[]" "get_initial_state t"]
  by (auto simp: precondition_flaws_def)

text \<open>With \<open>remaining_goals\<close> empty the goal violation loop collects nothing.\<close>

lemma apply_wildcard_plan_no_remaining_goals:
  assumes "remaining_goals c = []"
  shows "fst (apply_wildcard_plan opts t c k e (get_initial_state t))
           = precondition_flaws t (global_blacklist c) k e"
  using assms
  by (simp add: apply_wildcard_plan_def precondition_flaws_def collect_goal_flaws_filter
        split: prod.splits)

lemma get_flaws_loop_precondition_flaws:
  assumes "remaining_goals c = []"
    and "global_blacklist c = global_blacklist c0"
    and "length (solutions c) = length (solutions c0)"
    and "\<forall>n. j \<le> n \<longrightarrow> solutions c ! n = solutions c0 ! n"
    and "\<forall>flaw \<in> set flaws. is_precondition_flaw t c0 flaw"
    and "get_flaws_loop opts t (get_initial_state t) (flaws, c) j = Inr (flaws', c')"
  shows "(\<forall>flaw \<in> set flaws'. is_precondition_flaw t c0 flaw) \<and> remaining_goals c' = []"
  using assms
proof (induction "length (solutions c) - j" arbitrary: j flaws c)
  case 0
  then have "\<not> j < length (solutions c)" by simp
  with 0 show ?case by (subst (asm) get_flaws_loop.simps) simp
next
  case (Suc d)
  then have d: "d = length (solutions c) - Suc j" and jlen: "j < length (solutions c)"
    by simp_all
  have after: "\<forall>n. Suc j \<le> n \<longrightarrow> solutions c ! n = solutions c0 ! n"
    using Suc.prems(4) by simp
  note loop = Suc.prems(6) [unfolded get_flaws_loop.simps [of _ _ _ flaws c j]]
  show ?case
  proof (cases "solutions c ! j")
    case None
    with loop jlen have "get_flaws_loop opts t (get_initial_state t) (flaws, c) (Suc j)
                           = Inr (flaws', c')"
      by simp
    from Suc.hyps(1) [OF d Suc.prems(1-3) after Suc.prems(5) this] show ?thesis .
  next
    case (Some e)
    show ?thesis
    proof (cases "is_solved e")
      case True
      with Some loop jlen have "get_flaws_loop opts t (get_initial_state t) (flaws, c) (Suc j)
                             = Inr (flaws', c')"
        by simp
      from Suc.hyps(1) [OF d Suc.prems(1-3) after Suc.prems(5) this] show ?thesis .
    next
      case unsolved: False
      obtain new_flaws c1 where
        a: "apply_wildcard_plan opts t c j e (get_initial_state t) = (new_flaws, c1)"
        by (cases "apply_wildcard_plan opts t c j e (get_initial_state t)")
      then have c1: "c1 = snd (apply_wildcard_plan opts t c j e (get_initial_state t))"
        and nf: "new_flaws = fst (apply_wildcard_plan opts t c j e (get_initial_state t))"
        by simp_all
      have rg: "remaining_goals c1 = []"
        using Suc.prems(1) by (simp add: c1 apply_wildcard_plan_frame)
      have bl: "global_blacklist c1 = global_blacklist c0"
        using Suc.prems(2) by (simp add: c1 apply_wildcard_plan_frame)
      have len: "length (solutions c1) = length (solutions c0)"
        using Suc.prems(3) by (simp add: c1 length_solutions_apply_wildcard_plan)
      have after1: "\<forall>n. Suc j \<le> n \<longrightarrow> solutions c1 ! n = solutions c0 ! n"
        using after by (simp add: c1 apply_wildcard_plan_frame)
      have e0: "entry_at c0 j = Some e"
        using Suc.prems(3,4) jlen Some by (simp add: entry_at_def)
      have "new_flaws = precondition_flaws t (global_blacklist c0) j e"
        using Suc.prems(1,2) by (simp add: nf apply_wildcard_plan_no_remaining_goals)
      have new: "\<forall>flaw \<in> set new_flaws. is_precondition_flaw t c0 flaw"
      proof
        fix flaw assume "flaw \<in> set new_flaws"
        then have f: "flaw \<in> set (precondition_flaws t (global_blacklist c0) j e)"
          using \<open>new_flaws = precondition_flaws t (global_blacklist c0) j e\<close> by simp
        then have "fst flaw = j" by (rule precondition_flaws_index)
        with f e0 show "is_precondition_flaw t c0 flaw"
          by (simp add: is_precondition_flaw_def)
      qed
      show ?thesis
      proof (cases "solution_exists e \<and> concrete_solution_index c1 = - 1")
        case True
        with Some unsolved loop jlen a have
          "get_flaws_loop opts t (get_initial_state t) (flaws @ new_flaws, c1) (Suc j)
             = Inr (flaws', c')"
          by simp
        moreover have "d = length (solutions c1) - Suc j"
          using d len Suc.prems(3) by simp
        moreover have "\<forall>flaw \<in> set (flaws @ new_flaws). is_precondition_flaw t c0 flaw"
          using Suc.prems(5) new by auto
        ultimately show ?thesis
          using Suc.hyps(1) [of c1 "Suc j" "flaws @ new_flaws"] rg bl len after1 by blast
      next
        case False
        with Some unsolved loop jlen a have "flaws' = [] \<and> c' = c1"
          by (auto split: if_splits)
        with rg show ?thesis by simp
      qed
    qed
  qed
qed

lemma get_flaws_precondition_flaws:
  assumes "remaining_goals c = []" and "get_flaws opts t c = Inr (flaws, c')"
  shows "(\<forall>flaw \<in> set flaws. is_precondition_flaw t c flaw) \<and> remaining_goals c' = []"
  using get_flaws_loop_precondition_flaws [of c c 0 "[]" t opts flaws c'] assms
  by (simp add: get_flaws_def)

subsection \<open>A run seeded with all goals\<close>

lemma main_loop_body_remaining_goals:
  assumes "remaining_goals c = []" and "main_loop_body env opts t c n = Inr (c', go_on)"
  shows "remaining_goals c' = []"
proof -
  obtain met c1 where m: "termination_conditions_met env opts c n = (met, c1)"
    by (cases "termination_conditions_met env opts c n")
  then have "c1 = snd (termination_conditions_met env opts c n)" by simp
  with assms(1) have c1: "remaining_goals c1 = []" by simp
  show ?thesis
  proof (cases met)
    case True
    with assms(2) m c1 show ?thesis by (simp add: main_loop_body_def)
  next
    case False
    with assms(2) m obtain flaws c2 where g: "get_flaws opts t c1 = Inr (flaws, c2)"
      by (cases "get_flaws opts t c1") (auto simp: main_loop_body_def)
    with c1 have c2: "remaining_goals c2 = []"
      using get_flaws_precondition_flaws [of c1 opts t flaws c2] by simp
    obtain reached c3 where r: "time_limit_reached env c2 = (reached, c3)"
      by (cases "time_limit_reached env c2")
    then have "c3 = snd (time_limit_reached env c2)" by simp
    with c2 have c3: "remaining_goals c3 = []" by simp
    show ?thesis
    proof (cases "refine env opts t c3 flaws")
      case (Inl f)
      with assms(2) m False g r c2 c3 show ?thesis
        by (auto simp: main_loop_body_def split: if_splits)
    next
      case (Inr c4)
      then have "set (remaining_goals c4) \<subseteq> set (remaining_goals c3)"
        by (rule remaining_goals_refine)
      with c3 have "remaining_goals c4 = []" by simp
      with assms(2) m False g r c2 c3 Inr show ?thesis
        by (auto simp: main_loop_body_def split: if_splits)
    qed
  qed
qed

lemma iterations_remaining_goals:
  assumes "remaining_goals c = []" and "iterations env opts t n c counter = Inr (c', go_on)"
  shows "remaining_goals c' = []"
  using assms
proof (induction n arbitrary: c counter)
  case 0
  then show ?case by simp
next
  case (Suc n)
  from Suc.prems(2) obtain c1 go1 where b: "main_loop_body env opts t c counter = Inr (c1, go1)"
    by (cases "main_loop_body env opts t c counter") auto
  with Suc.prems(1) have c1: "remaining_goals c1 = []"
    by (simp add: main_loop_body_remaining_goals)
  show ?case
  proof (cases go1)
    case True
    with Suc.prems(2) b have "iterations env opts t n c1 (counter + 1) = Inr (c', go_on)"
      by simp
    with c1 show ?thesis by (rule Suc.IH)
  next
    case False
    with Suc.prems(2) b c1 show ?thesis by simp
  qed
qed

text \<open>A run of the loop that returns has left the loop after finitely many passes.\<close>

lemma main_loop_iterations:
  assumes "main_loop env opts t c counter = Some r"
  shows "\<exists>n. case r of
               Inl f \<Rightarrow> iterations env opts t n c counter = Inl f
             | Inr c' \<Rightarrow> iterations env opts t n c counter = Inr (c', False)"
proof (rule main_loop.raw_induct
         [where P = "\<lambda>env opts t c counter r.
                      \<exists>n. case r of
                             Inl f \<Rightarrow> iterations env opts t n c counter = Inl f
                           | Inr c' \<Rightarrow> iterations env opts t n c counter = Inr (c', False)",
          OF _ assms])
  fix loop :: "'a environment \<Rightarrow> options \<Rightarrow> task \<Rightarrow> 'a cegar \<Rightarrow> cint
                 \<Rightarrow> (failure + 'a cegar) option"
    and env opts t c counter r
  assume IH: "\<And>env opts t c counter r. loop env opts t c counter = Some r \<Longrightarrow>
                \<exists>n. case r of
                       Inl f \<Rightarrow> iterations env opts t n c counter = Inl f
                     | Inr c' \<Rightarrow> iterations env opts t n c counter = Inr (c', False)"
    and body: "(case main_loop_body env opts t c counter of
                  Inl f \<Rightarrow> Some (Inl f)
                | Inr (c', go_on) \<Rightarrow>
                    if go_on then loop env opts t c' (counter + 1) else Some (Inr c')) = Some r"
  show "\<exists>n. case r of
              Inl f \<Rightarrow> iterations env opts t n c counter = Inl f
            | Inr c' \<Rightarrow> iterations env opts t n c counter = Inr (c', False)"
  proof (cases "main_loop_body env opts t c counter")
    case (Inl f)
    with body have "r = Inl f" by simp
    with Inl have "case r of
                     Inl f \<Rightarrow> iterations env opts t (Suc 0) c counter = Inl f
                   | Inr c' \<Rightarrow> iterations env opts t (Suc 0) c counter = Inr (c', False)"
      by simp
    then show ?thesis ..
  next
    case (Inr p)
    obtain c1 go1 where p: "p = (c1, go1)" by (cases p)
    show ?thesis
    proof (cases go1)
      case True
      with body Inr p have "loop env opts t c1 (counter + 1) = Some r" by simp
      from IH [OF this] obtain n where
        n: "case r of
              Inl f \<Rightarrow> iterations env opts t n c1 (counter + 1) = Inl f
            | Inr c' \<Rightarrow> iterations env opts t n c1 (counter + 1) = Inr (c', False)"
        ..
      with Inr p True have
        "case r of
           Inl f \<Rightarrow> iterations env opts t (Suc n) c counter = Inl f
         | Inr c' \<Rightarrow> iterations env opts t (Suc n) c counter = Inr (c', False)"
        by (cases r) simp_all
      then show ?thesis ..
    next
      case False
      with body Inr p have "r = Inr c1" by simp
      with Inr p False have
        "case r of
           Inl f \<Rightarrow> iterations env opts t (Suc 0) c counter = Inl f
         | Inr c' \<Rightarrow> iterations env opts t (Suc 0) c counter = Inr (c', False)"
        by simp
      then show ?thesis ..
    qed
  qed
qed

lemma is_precondition_flaw_world [simp]:
  "is_precondition_flaw t (c\<lparr>world := w\<rparr>) flaw = is_precondition_flaw t c flaw"
  by (simp add: is_precondition_flaw_def split: option.splits)

text \<open>
  C10. With \<open>initial = ALL_GOALS\<close>, \<open>remaining_goals\<close> is empty after seeding and after
  any number of passes through the main loop. In every such state, whatever the timer
  did to the world, every flaw that \<open>get_flaws\<close> returns is a precondition flaw of a
  live entry; \<open>apply_wildcard_plan\<close> returns the flaws the projection left and no
  goal violation flaw; and when the plan ends without a flaw outside the goal and
  goal violations are not ignored, it returns no flaw and the object as it was, so
  that no entry is marked as solved on that path.
\<close>

theorem all_goals_only_precondition_flaws:
  assumes "initial opts = ALL_GOALS"
    and "generate_trivial_solution_collection env opts c0 = Inr c"
    and "iterations env opts t n c counter = Inr (c', go_on)"
  shows "remaining_goals c = []
       \<and> remaining_goals c' = []
       \<and> (\<forall>w flaws c''.
             get_flaws opts t (c'\<lparr>world := w\<rparr>) = Inr (flaws, c'') \<longrightarrow>
             (\<forall>flaw \<in> set flaws. is_precondition_flaw t c' flaw)
             \<and> remaining_goals c'' = [])
       \<and> (\<forall>k e. fst (apply_wildcard_plan opts t c' k e (get_initial_state t))
                   = precondition_flaws t (global_blacklist c') k e)
       \<and> (\<forall>k e current.
             \<not> ignore_goal_violations opts
             \<and> execute_plan t (global_blacklist c') e k (get_plan e) ([], get_initial_state t)
                 = ([], current)
             \<and> \<not> is_goal_state t current \<longrightarrow>
             apply_wildcard_plan opts t c' k e (get_initial_state t) = ([], c'))"
proof -
  have seeded: "remaining_goals c = []"
    using assms(1,2)
    by (auto simp: generate_trivial_solution_collection_def remaining_goals_all_goals_loop
          split: if_splits)
  then have run: "remaining_goals c' = []"
    using assms(3) by (rule iterations_remaining_goals)
  have flaws: "(\<forall>flaw \<in> set flaws. is_precondition_flaw t c' flaw) \<and> remaining_goals c'' = []"
    if "get_flaws opts t (c'\<lparr>world := w\<rparr>) = Inr (flaws, c'')" for w flaws c''
    using get_flaws_precondition_flaws [of "c'\<lparr>world := w\<rparr>" opts t flaws c''] run that
    by simp
  have projection: "fst (apply_wildcard_plan opts t c' k e (get_initial_state t))
                      = precondition_flaws t (global_blacklist c') k e" for k e
    using run by (rule apply_wildcard_plan_no_remaining_goals)
  have unsolved: "apply_wildcard_plan opts t c' k e (get_initial_state t) = ([], c')"
    if "\<not> ignore_goal_violations opts"
      "execute_plan t (global_blacklist c') e k (get_plan e) ([], get_initial_state t)
         = ([], current)"
      "\<not> is_goal_state t current" for k e current
    using that run by (simp add: apply_wildcard_plan_def collect_goal_flaws_filter)
  show ?thesis
    using seeded run flaws projection unsolved by blast
qed

text \<open>
  The example task, prepared as \<open>generate\<close> does: seeding with all goals gives the
  singleton pattern of variable \<open>0\<close>; the first pass through the loop finds the
  precondition flaw on variable \<open>1\<close> and extends the pattern by it.
\<close>

definition extended_cegar :: "unit cegar" where
  "extended_cegar =
     one_singleton
       \<lparr>solutions := [Some (fst (example_solver () [0, 1]))],
        solution_lookup := [(0, 0), (1, 0)],
        collection_size := 4\<rparr>"

theorem all_goals_only_precondition_flaws_witness:
  "initial example_options = ALL_GOALS
   \<and> generate_trivial_solution_collection example_env example_options
        ((Cegar ())\<lparr>remaining_goals := [0]\<rparr>) = Inr one_singleton
   \<and> iterations example_env example_options example_task 1 one_singleton 0
       = Inr (extended_cegar, True)
   \<and> remaining_goals one_singleton = []
   \<and> remaining_goals extended_cegar = []
   \<and> get_flaws example_options example_task one_singleton = Inr ([(0, 1)], one_singleton)
   \<and> is_precondition_flaw example_task one_singleton (0, 1)"
proof -
  have i: "initial example_options = ALL_GOALS"
    by (simp add: example_options_def)
  have s: "generate_trivial_solution_collection example_env example_options
             ((Cegar ())\<lparr>remaining_goals := [0]\<rparr>) = Inr one_singleton"
    by (simp add: generate_trivial_solution_collection_def all_goals_loop.simps
          example_options_def one_singleton_def add_pattern_for_var_def
          AbstractSolutionData_def example_env_def example_solver_def Cegar_def)
  have g: "get_flaws example_options example_task one_singleton = Inr ([(0, 1)], one_singleton)"
    by (simp add: get_flaws_def get_flaws_loop.simps one_singleton_eq example_solver_def
          apply_wildcard_plan_def example_task_def)
  have r: "refine example_env example_options example_task one_singleton [(0, 1)]
             = Inr extended_cegar"
    by (simp add: refine_def handle_flaw_def entry_at_def
          can_add_variable_to_pattern_def is_product_within_limit_def
          add_variable_to_pattern_def update_goals_def AbstractSolutionData_def
          example_options_def example_env_def example_solver_def example_task_def
          one_singleton_eq extended_cegar_def)
  have w: "one_singleton\<lparr>world := ()\<rparr> = one_singleton"
    by simp
  have tl: "time_limit_reached example_env one_singleton = (False, one_singleton)"
    by (simp add: time_limit_reached_def example_env_def)
  have tc: "termination_conditions_met example_env example_options one_singleton 0
              = (False, one_singleton)"
    by (simp add: termination_conditions_met_def tl example_options_def)
  have b: "main_loop_body example_env example_options example_task one_singleton 0
             = Inr (extended_cegar, True)"
    by (simp add: main_loop_body_def tc tl g r)
  have it0: "iterations example_env example_options example_task 0 one_singleton 0
               = Inr (one_singleton, True)"
    by simp
  have it1: "iterations example_env example_options example_task 1 one_singleton 0
               = Inr (extended_cegar, True)"
    using b by simp
  note at0 = all_goals_only_precondition_flaws [OF i s it0]
  note at1 = all_goals_only_precondition_flaws [OF i s it1]
  have rg0: "remaining_goals one_singleton = []" using at0 by blast
  have rg1: "remaining_goals extended_cegar = []" using at1 by blast
  have "\<forall>flaw \<in> set [(0::nat, 1::int)]. is_precondition_flaw example_task one_singleton flaw"
    using at0 g w by metis
  then have p: "is_precondition_flaw example_task one_singleton (0, 1)" by simp
  show ?thesis using i s it1 rg0 rg1 g p by simp
qed

subsection \<open>The lookup invariant is kept\<close>

lemma lookup_consistent_iff:
  "lookup_consistent c \<longleftrightarrow>
     (\<forall>v m. map_of (solution_lookup c) v = Some m \<longleftrightarrow> in_live_pattern c m v)"
proof
  assume "lookup_consistent c"
  then show "\<forall>v m. map_of (solution_lookup c) v = Some m \<longleftrightarrow> in_live_pattern c m v"
    using lookup_of_live_pattern live_pattern_of_lookup by blast
next
  assume a: "\<forall>v m. map_of (solution_lookup c) v = Some m \<longleftrightarrow> in_live_pattern c m v"
  have one: "map_of (solution_lookup c) v = Some i"
    if "i < length (solutions c)" "solutions c ! i = Some e" "v \<in> set (get_pattern e)"
    for i e v
  proof -
    have "in_live_pattern c i v"
      using that by (simp add: in_live_pattern_def entry_at_def)
    with a show ?thesis by simp
  qed
  have two: "case map_of (solution_lookup c) v of None \<Rightarrow> False
             | Some j \<Rightarrow> in_live_pattern c j v"
    if "(v, i) \<in> set (solution_lookup c)" for v i
  proof (cases "map_of (solution_lookup c) v")
    case None
    with that show ?thesis by (metis map_of_eq_None_iff fst_conv image_eqI)
  next
    case (Some j)
    with a have "in_live_pattern c j v" by blast
    with Some show ?thesis by simp
  qed
  show "lookup_consistent c"
    unfolding lookup_consistent_def list_all_iff
    using one two by (auto split: option.splits)
qed

lemma get_pattern_AbstractSolutionData:
  "AbstractSolutionData env w p = (e, w') \<Longrightarrow> get_pattern e = p"
  by (auto simp: AbstractSolutionData_def split: prod.splits)

lemma map_of_fold_update:
  "map_of (fold (\<lambda>var l. AList.update var i l) vars al) v
     = (if v \<in> set vars then Some i else map_of al v)"
proof (induction vars arbitrary: al)
  case Nil
  show ?case by simp
next
  case (Cons var vars)
  show ?case by (simp add: Cons.IH update_conv')
qed

lemma lookup_consistent_merge_patterns:
  assumes "lookup_consistent c"
    and "index1 \<noteq> index2"
    and "entry_at c index1 = Some solution1" and "entry_at c index2 = Some solution2"
  shows "lookup_consistent (merge_patterns env c index1 index2 solution1 solution2)"
proof -
  let ?p = "sort (get_pattern solution1 @ get_pattern solution2)"
  obtain merged w' where m: "AbstractSolutionData env (world c) ?p = (merged, w')"
    by (cases "AbstractSolutionData env (world c) ?p")
  then have pm: "get_pattern merged = ?p" by (rule get_pattern_AbstractSolutionData)
  let ?c' = "merge_patterns env c index1 index2 solution1 solution2"
  have len: "index1 < length (solutions c)" "index2 < length (solutions c)"
    using assms(3,4) by (auto simp: entry_at_def split: if_splits)
  have sol: "solutions ?c' = (solutions c)[index1 := Some merged, index2 := None]"
    using m by (simp add: merge_patterns_def Let_def)
  have look: "map_of (solution_lookup ?c') v
                = (if v \<in> set (get_pattern solution2) then Some index1
                   else map_of (solution_lookup c) v)" for v
    using m by (simp add: merge_patterns_def Let_def map_of_fold_update)
  have live: "in_live_pattern ?c' n v \<longleftrightarrow>
                (if n = index2 then False
                 else if n = index1
                 then v \<in> set (get_pattern solution1) \<or> v \<in> set (get_pattern solution2)
                 else in_live_pattern c n v)" for n v
    using len assms(2) pm
    by (auto simp: in_live_pattern_def entry_at_def sol nth_list_update)
  have old: "map_of (solution_lookup c) v = Some n \<longleftrightarrow> in_live_pattern c n v" for v n
    using assms(1) by (simp add: lookup_consistent_iff)
  have in1: "in_live_pattern c index1 v \<longleftrightarrow> v \<in> set (get_pattern solution1)" for v
    using assms(3) by (simp add: in_live_pattern_def)
  have in2: "in_live_pattern c index2 v \<longleftrightarrow> v \<in> set (get_pattern solution2)" for v
    using assms(4) by (simp add: in_live_pattern_def)
  show ?thesis
    unfolding lookup_consistent_iff
  proof (intro allI)
    fix v n
    show "map_of (solution_lookup ?c') v = Some n \<longleftrightarrow> in_live_pattern ?c' n v"
    proof (cases "v \<in> set (get_pattern solution2)")
      case True
      then have "map_of (solution_lookup c) v = Some index2" using old in2 by simp
      then have "in_live_pattern c n v \<longleftrightarrow> n = index2" for n
        using old [of v n] by auto
      with True show ?thesis using assms(2) by (auto simp: look live)
    next
      case False
      then have "map_of (solution_lookup c) v \<noteq> Some index2" using old in2 by simp
      with False show ?thesis using old [of v n] in1 by (auto simp: look live)
    qed
  qed
qed

lemma lookup_consistent_add_variable_to_pattern:
  assumes "lookup_consistent c"
    and "entry_at c index = Some solution"
    and "map_of (solution_lookup c) var = None"
  shows "lookup_consistent (add_variable_to_pattern env c index solution var)"
proof -
  let ?p = "sort (get_pattern solution @ [var])"
  obtain new_solution w' where m: "AbstractSolutionData env (world c) ?p = (new_solution, w')"
    by (cases "AbstractSolutionData env (world c) ?p")
  then have pm: "get_pattern new_solution = ?p" by (rule get_pattern_AbstractSolutionData)
  let ?c' = "add_variable_to_pattern env c index solution var"
  have len: "index < length (solutions c)"
    using assms(2) by (auto simp: entry_at_def split: if_splits)
  have sol: "solutions ?c' = (solutions c)[index := Some new_solution]"
    using m by (simp add: add_variable_to_pattern_def update_goals_def Let_def)
  have look: "map_of (solution_lookup ?c') v
                = (if v = var then Some index else map_of (solution_lookup c) v)" for v
    using m by (simp add: add_variable_to_pattern_def update_goals_def Let_def update_conv')
  have live: "in_live_pattern ?c' n v \<longleftrightarrow>
                (if n = index then v \<in> set (get_pattern solution) \<or> v = var
                 else in_live_pattern c n v)" for n v
    using len pm by (auto simp: in_live_pattern_def entry_at_def sol nth_list_update)
  have old: "map_of (solution_lookup c) v = Some n \<longleftrightarrow> in_live_pattern c n v" for v n
    using assms(1) by (simp add: lookup_consistent_iff)
  have ini: "in_live_pattern c index v \<longleftrightarrow> v \<in> set (get_pattern solution)" for v
    using assms(2) by (simp add: in_live_pattern_def)
  have fresh: "\<not> in_live_pattern c n var" for n
    using old [of var n] assms(3) by simp
  show ?thesis
    unfolding lookup_consistent_iff
  proof (intro allI)
    fix v n
    show "map_of (solution_lookup ?c') v = Some n \<longleftrightarrow> in_live_pattern ?c' n v"
      using old [of v n] ini [of v] fresh [of n] fresh [of index]
      by (auto simp: look live)
  qed
qed

lemma in_live_pattern_frame [simp]:
  "in_live_pattern (c\<lparr>global_blacklist := b\<rparr>) m v = in_live_pattern c m v"
  "in_live_pattern (c\<lparr>world := w\<rparr>) m v = in_live_pattern c m v"
  by (simp_all add: in_live_pattern_def entry_at_def)

lemma lookup_consistent_frame [simp]:
  "lookup_consistent (c\<lparr>global_blacklist := b\<rparr>) = lookup_consistent c"
  "lookup_consistent (c\<lparr>world := w\<rparr>) = lookup_consistent c"
  by (simp_all add: lookup_consistent_iff)

lemma lookup_consistent_handle_flaw:
  assumes "lookup_consistent c" and "handle_flaw env opts t c flaw = Inr c'"
  shows "lookup_consistent c'"
proof (cases "map_of (solution_lookup c) (snd flaw)")
  case None
  with assms(2) obtain solution where s: "entry_at c (fst flaw) = Some solution"
    by (auto simp: handle_flaw_def Let_def split: option.splits)
  show ?thesis
  proof (cases "can_add_variable_to_pattern opts t c solution (snd flaw)")
    case True
    with assms(2) None s
    have "c' = add_variable_to_pattern env c (fst flaw) solution (snd flaw)"
      by (simp add: handle_flaw_def Let_def)
    with assms(1) s None show ?thesis
      by (simp add: lookup_consistent_add_variable_to_pattern)
  next
    case False
    with assms None s show ?thesis by (auto simp: handle_flaw_def Let_def)
  qed
next
  case (Some m)
  with assms(2) have mk: "m \<noteq> fst flaw"
    by (auto simp: handle_flaw_def Let_def split: if_splits)
  with assms(2) Some obtain solution1 solution2
    where s: "entry_at c (fst flaw) = Some solution1" "entry_at c m = Some solution2"
    by (auto simp: handle_flaw_def Let_def split: option.splits)
  show ?thesis
  proof (cases "can_merge_patterns opts c solution1 solution2")
    case True
    with assms(2) Some mk s
    have "c' = merge_patterns env c (fst flaw) m solution1 solution2"
      by (simp add: handle_flaw_def Let_def)
    with assms(1) s mk show ?thesis
      by (simp add: lookup_consistent_merge_patterns)
  next
    case False
    with assms Some mk s show ?thesis by (auto simp: handle_flaw_def Let_def)
  qed
qed

lemma lookup_consistent_refine:
  assumes "lookup_consistent c" and "refine env opts t c flaws = Inr c'"
  shows "lookup_consistent c'"
proof -
  obtain r w' where r: "random_below env (world c) (length flaws) = (r, w')"
    by (cases "random_below env (world c) (length flaws)")
  with assms(2) have "handle_flaw env opts t (c\<lparr>world := w'\<rparr>) (flaws ! r) = Inr c'"
    by (auto simp: refine_def split: if_splits)
  moreover have "lookup_consistent (c\<lparr>world := w'\<rparr>)" using assms(1) by simp
  ultimately show ?thesis by (rule lookup_consistent_handle_flaw [rotated])
qed

lemma lookup_consistent_apply_wildcard_plan:
  assumes "lookup_consistent c" and "k < length (solutions c)" and "solutions c ! k = Some e"
  shows "lookup_consistent (snd (apply_wildcard_plan opts t c k e init))"
proof -
  let ?c' = "snd (apply_wildcard_plan opts t c k e init)"
  have look: "solution_lookup ?c' = solution_lookup c"
    by (simp add: apply_wildcard_plan_def mark_as_solved_def split: prod.splits)
  have e': "entry_at ?c' m = entry_at c m \<or>
        (m = k \<and> entry_at ?c' m = Some (e\<lparr>is_solved := True\<rparr>))" for m
    using assms(2,3)
    by (auto simp: apply_wildcard_plan_def mark_as_solved_def entry_at_def nth_list_update
          split: prod.splits)
  have ek: "entry_at c k = Some e"
    using assms(2,3) by (simp add: entry_at_def)
  have "in_live_pattern ?c' m v = in_live_pattern c m v" for m v
    using e' [of m] ek by (auto simp: in_live_pattern_def)
  with assms(1) look show ?thesis by (simp add: lookup_consistent_iff)
qed

lemma lookup_consistent_get_flaws_loop:
  assumes "lookup_consistent c"
    and "get_flaws_loop opts t init (flaws, c) j = Inr (flaws', c')"
  shows "lookup_consistent c'"
  using assms
proof (induction "length (solutions c) - j" arbitrary: j flaws c)
  case 0
  then have "\<not> j < length (solutions c)" by simp
  with 0 show ?case by (subst (asm) get_flaws_loop.simps) simp
next
  case (Suc d)
  then have d: "d = length (solutions c) - Suc j" and jlen: "j < length (solutions c)"
    by simp_all
  note loop = Suc.prems(2) [unfolded get_flaws_loop.simps [of _ _ _ flaws c j]]
  show ?case
  proof (cases "solutions c ! j")
    case None
    with loop jlen have "get_flaws_loop opts t init (flaws, c) (Suc j) = Inr (flaws', c')"
      by simp
    from Suc.hyps(1) [OF d Suc.prems(1) this] show ?thesis .
  next
    case (Some e)
    show ?thesis
    proof (cases "is_solved e")
      case True
      with Some loop jlen have "get_flaws_loop opts t init (flaws, c) (Suc j) = Inr (flaws', c')"
        by simp
      from Suc.hyps(1) [OF d Suc.prems(1) this] show ?thesis .
    next
      case unsolved: False
      obtain new_flaws c1 where a: "apply_wildcard_plan opts t c j e init = (new_flaws, c1)"
        by (cases "apply_wildcard_plan opts t c j e init")
      then have c1: "c1 = snd (apply_wildcard_plan opts t c j e init)" by simp
      have inv: "lookup_consistent c1"
        unfolding c1 using Suc.prems(1) jlen Some by (rule lookup_consistent_apply_wildcard_plan)
      have len: "length (solutions c1) = length (solutions c)"
        by (simp add: c1 length_solutions_apply_wildcard_plan)
      show ?thesis
      proof (cases "solution_exists e \<and> concrete_solution_index c1 = - 1")
        case True
        with Some unsolved loop jlen a have
          "get_flaws_loop opts t init (flaws @ new_flaws, c1) (Suc j) = Inr (flaws', c')"
          by simp
        moreover have "d = length (solutions c1) - Suc j" using d len by simp
        ultimately show ?thesis using Suc.hyps(1) inv by blast
      next
        case False
        with Some unsolved loop jlen a have "c' = c1" by (auto split: if_splits)
        with inv show ?thesis by simp
      qed
    qed
  qed
qed

lemma lookup_consistent_get_flaws:
  assumes "lookup_consistent c" and "get_flaws opts t c = Inr (flaws, c')"
  shows "lookup_consistent c'"
  using assms unfolding get_flaws_def by (rule lookup_consistent_get_flaws_loop)

lemma lookup_consistent_time_limit_reached [simp]:
  "lookup_consistent (snd (time_limit_reached env c)) = lookup_consistent c"
  by (simp add: time_limit_reached_def split: prod.splits)

lemma lookup_consistent_termination_conditions_met [simp]:
  "lookup_consistent (snd (termination_conditions_met env opts c n)) = lookup_consistent c"
proof -
  have "snd (termination_conditions_met env opts c n) = snd (time_limit_reached env c)"
    by (simp add: termination_conditions_met_def split: prod.splits)
  then show ?thesis by simp
qed

lemma lookup_consistent_main_loop_body:
  assumes "lookup_consistent c" and "main_loop_body env opts t c n = Inr (c', go_on)"
  shows "lookup_consistent c'"
proof -
  obtain met c1 where m: "termination_conditions_met env opts c n = (met, c1)"
    by (cases "termination_conditions_met env opts c n")
  then have "c1 = snd (termination_conditions_met env opts c n)" by simp
  with assms(1) have c1: "lookup_consistent c1" by simp
  show ?thesis
  proof (cases met)
    case True
    with assms(2) m c1 show ?thesis by (simp add: main_loop_body_def)
  next
    case False
    with assms(2) m obtain flaws c2 where g: "get_flaws opts t c1 = Inr (flaws, c2)"
      by (cases "get_flaws opts t c1") (auto simp: main_loop_body_def)
    with c1 have c2: "lookup_consistent c2" by (rule lookup_consistent_get_flaws)
    obtain reached c3 where r: "time_limit_reached env c2 = (reached, c3)"
      by (cases "time_limit_reached env c2")
    then have "c3 = snd (time_limit_reached env c2)" by simp
    with c2 have c3: "lookup_consistent c3" by simp
    show ?thesis
    proof (cases "refine env opts t c3 flaws")
      case (Inl f)
      with assms(2) m False g r c2 c3 show ?thesis
        by (auto simp: main_loop_body_def split: if_splits)
    next
      case (Inr c4)
      with c3 have "lookup_consistent c4" by (rule lookup_consistent_refine)
      with assms(2) m False g r c2 c3 Inr show ?thesis
        by (auto simp: main_loop_body_def split: if_splits)
    qed
  qed
qed

lemma lookup_consistent_iterations:
  assumes "lookup_consistent c" and "iterations env opts t n c counter = Inr (c', go_on)"
  shows "lookup_consistent c'"
  using assms
proof (induction n arbitrary: c counter)
  case 0
  then show ?case by simp
next
  case (Suc n)
  from Suc.prems(2) obtain c1 go1 where b: "main_loop_body env opts t c counter = Inr (c1, go1)"
    by (cases "main_loop_body env opts t c counter") auto
  with Suc.prems(1) have c1: "lookup_consistent c1"
    by (rule lookup_consistent_main_loop_body)
  show ?case
  proof (cases go1)
    case True
    with Suc.prems(2) b have "iterations env opts t n c1 (counter + 1) = Inr (c', go_on)"
      by simp
    with c1 show ?thesis by (rule Suc.IH)
  next
    case False
    with Suc.prems(2) b c1 show ?thesis by simp
  qed
qed

text \<open>
  Seeding establishes the invariant, on the object as \<open>generate\<close> prepares it: no
  entries yet and every goal variable once in \<open>remaining_goals\<close>.
\<close>

lemma lookup_consistent_add_pattern_for_var:
  assumes "lookup_consistent c" and "map_of (solution_lookup c) var = None"
  shows "lookup_consistent (add_pattern_for_var env c var)"
proof -
  obtain e w' where m: "AbstractSolutionData env (world c) [var] = (e, w')"
    by (cases "AbstractSolutionData env (world c) [var]")
  then have pe: "get_pattern e = [var]" by (rule get_pattern_AbstractSolutionData)
  let ?c' = "add_pattern_for_var env c var"
  have sol: "solutions ?c' = solutions c @ [Some e]"
    using m by (simp add: add_pattern_for_var_def)
  have look: "map_of (solution_lookup ?c') v
                = (if v = var then Some (length (solutions c))
                   else map_of (solution_lookup c) v)" for v
    using m by (simp add: add_pattern_for_var_def update_conv')
  have live: "in_live_pattern ?c' n v \<longleftrightarrow>
                (if n = length (solutions c) then v = var else in_live_pattern c n v)" for n v
    using pe by (auto simp: in_live_pattern_def entry_at_def sol nth_append)
  have old: "map_of (solution_lookup c) v = Some n \<longleftrightarrow> in_live_pattern c n v" for v n
    using assms(1) by (simp add: lookup_consistent_iff)
  have bound: "n < length (solutions c)" if "in_live_pattern c n v" for n v
    using that by (auto simp: in_live_pattern_def entry_at_def split: if_splits)
  have fresh: "\<not> in_live_pattern c n var" for n
    using old [of var n] assms(2) by simp
  show ?thesis
    unfolding lookup_consistent_iff
  proof (intro allI)
    fix v n
    show "map_of (solution_lookup ?c') v = Some n \<longleftrightarrow> in_live_pattern ?c' n v"
      using old [of v n] fresh [of n] bound [of n v] bound [of "length (solutions c)" v]
      by (auto simp: look live)
  qed
qed

lemma solution_lookup_add_pattern_for_var:
  "map_of (solution_lookup (add_pattern_for_var env c var)) v
     = (if v = var then Some (length (solutions c)) else map_of (solution_lookup c) v)"
  by (simp add: add_pattern_for_var_def update_conv' split: prod.splits)

lemma lookup_consistent_all_goals_loop:
  assumes "lookup_consistent c" and "distinct (remaining_goals c)"
    and "\<forall>v \<in> set (remaining_goals c). map_of (solution_lookup c) v = None"
  shows "lookup_consistent (all_goals_loop env c)"
  using assms
proof (induction "length (remaining_goals c)" arbitrary: c)
  case 0
  then show ?case by (subst all_goals_loop.simps) simp
next
  case (Suc n)
  then have ne: "remaining_goals c \<noteq> []" by auto
  let ?var = "last (remaining_goals c)"
  let ?c0 = "c\<lparr>remaining_goals := butlast (remaining_goals c)\<rparr>"
  let ?c1 = "add_pattern_for_var env ?c0 ?var"
  have split: "remaining_goals c = butlast (remaining_goals c) @ [?var]"
    using ne by simp
  have notin: "?var \<notin> set (butlast (remaining_goals c))"
    using Suc.prems(2) split by (metis distinct_append distinct.simps(2) disjoint_iff
        list.set_intros(1) not_distinct_conv_prefix)
  have c0: "lookup_consistent ?c0"
    using Suc.prems(1) by (simp add: lookup_consistent_iff in_live_pattern_def entry_at_def)
  have fresh: "map_of (solution_lookup ?c0) ?var = None"
    using Suc.prems(3) ne by simp
  have "lookup_consistent (all_goals_loop env ?c1)"
  proof (rule Suc.hyps(1))
    show "n = length (remaining_goals ?c1)" using Suc.hyps(2) by simp
    show "lookup_consistent ?c1" using c0 fresh by (rule lookup_consistent_add_pattern_for_var)
    show "distinct (remaining_goals ?c1)" using Suc.prems(2) by (simp add: distinct_butlast)
    show "\<forall>v \<in> set (remaining_goals ?c1). map_of (solution_lookup ?c1) v = None"
    proof
      fix v assume "v \<in> set (remaining_goals ?c1)"
      then have v: "v \<in> set (butlast (remaining_goals c))" by simp
      then have "v \<noteq> ?var" using notin by auto
      moreover have "v \<in> set (remaining_goals c)" using v by (rule in_set_butlastD)
      ultimately show "map_of (solution_lookup ?c1) v = None"
        using Suc.prems(3) by (simp add: solution_lookup_add_pattern_for_var)
    qed
  qed
  with ne show ?case by (subst all_goals_loop.simps) (simp add: Let_def)
qed

lemma lookup_consistent_empty:
  assumes "solutions c = []" and "solution_lookup c = []"
  shows "lookup_consistent c"
  using assms by (simp add: lookup_consistent_def)

lemma lookup_consistent_generate_trivial_solution_collection:
  assumes "solutions c0 = []" and "solution_lookup c0 = []"
    and "distinct (remaining_goals c0)"
    and "generate_trivial_solution_collection env opts c0 = Inr c"
  shows "lookup_consistent c"
proof (cases "initial opts")
  case GIVEN_GOAL
  have "lookup_consistent (update_goals c0 (given_goal opts))"
    using assms(1,2) by (simp add: lookup_consistent_def update_goals_def)
  moreover have "map_of (solution_lookup (update_goals c0 (given_goal opts))) (given_goal opts)
                   = None"
    using assms(2) by (simp add: update_goals_def)
  ultimately have "lookup_consistent
      (add_pattern_for_var env (update_goals c0 (given_goal opts)) (given_goal opts))"
    by (rule lookup_consistent_add_pattern_for_var)
  with assms(4) GIVEN_GOAL show ?thesis
    by (auto simp: generate_trivial_solution_collection_def split: if_splits)
next
  case RANDOM_GOAL
  let ?c1 = "c0\<lparr>remaining_goals := butlast (remaining_goals c0)\<rparr>"
  have "lookup_consistent ?c1"
    using assms(1,2) by (simp add: lookup_consistent_def)
  moreover have "map_of (solution_lookup ?c1) (last (remaining_goals c0)) = None"
    using assms(2) by simp
  ultimately have "lookup_consistent (add_pattern_for_var env ?c1 (last (remaining_goals c0)))"
    by (rule lookup_consistent_add_pattern_for_var)
  with assms(4) RANDOM_GOAL show ?thesis
    by (auto simp: generate_trivial_solution_collection_def Let_def split: if_splits)
next
  case ALL_GOALS
  have "lookup_consistent (all_goals_loop env c0)"
    using assms(1-3) by (intro lookup_consistent_all_goals_loop lookup_consistent_empty) auto
  with assms(4) ALL_GOALS show ?thesis
    by (auto simp: generate_trivial_solution_collection_def split: if_splits)
qed

text \<open>
  So the invariant holds after seeding and after every pass through the main loop.
\<close>

lemma lookup_consistent_run:
  assumes "solutions c0 = []" and "solution_lookup c0 = []"
    and "distinct (remaining_goals c0)"
    and "generate_trivial_solution_collection env opts c0 = Inr c"
    and "iterations env opts t n c counter = Inr (c', go_on)"
  shows "lookup_consistent c'"
proof -
  have "lookup_consistent c"
    using assms(1-4) by (rule lookup_consistent_generate_trivial_solution_collection)
  then show ?thesis using assms(5) by (rule lookup_consistent_iterations)
qed

end
